theory Spec2Isabelle
  imports Complex_Main
begin

section \<open>JavaScript values\<close>

text \<open>
  The library (\<^verbatim>\<open>src/db.js\<close>) is dynamically typed. Values that flow through it
  (parameters, defaults, driver rows, results) are modelled by one datatype. Numbers are
  IEEE doubles in the source; the model keeps the three non-finite values apart and takes
  a finite number as the rational it denotes, which is all that \<^verbatim>\<open>Number.isNaN\<close> and
  \<^verbatim>\<open>Number.isInteger\<close> look at. An object is the list of its own enumerable
  properties in \<^verbatim>\<open>for ... in\<close> order; inherited members are not modelled.
\<close>

datatype jsnum = NaN | PosInf | NegInf | Fin rat

datatype jsval =
    JUndefined
  | JNull
  | JBool bool
  | JNum jsnum
  | JStr string
  | JArr "jsval list"
  | JObj "(string \<times> jsval) list"

datatype error = Error string | TypeError string | DriverError string

text \<open>\<^verbatim>\<open>if (v)\<close>, \<^verbatim>\<open>!v\<close>, \<^verbatim>\<open>v ? a : b\<close>\<close>

fun truthy :: "jsval \<Rightarrow> bool" where
  "truthy JUndefined = False"
| "truthy JNull = False"
| "truthy (JBool b) = b"
| "truthy (JNum n) = (n \<noteq> NaN \<and> n \<noteq> Fin 0)"
| "truthy (JStr s) = (s \<noteq> [])"
| "truthy (JArr xs) = True"
| "truthy (JObj ps) = True"

text \<open>\<^verbatim>\<open>v === null || v === undefined\<close> (also \<^verbatim>\<open>v == null\<close>)\<close>

fun isNullish :: "jsval \<Rightarrow> bool" where
  "isNullish JUndefined = True"
| "isNullish JNull = True"
| "isNullish v = False"

fun isArray :: "jsval \<Rightarrow> bool" where
  "isArray (JArr xs) = True"
| "isArray v = False"

text \<open>\<^verbatim>\<open>typeof v == "object"\<close>: arrays, objects and null.\<close>

fun typeofObject :: "jsval \<Rightarrow> bool" where
  "typeofObject (JArr xs) = True"
| "typeofObject (JObj ps) = True"
| "typeofObject JNull = True"
| "typeofObject v = False"

fun isInteger :: "jsnum \<Rightarrow> bool" where
  "isInteger (Fin q) = (of_int \<lfloor>q\<rfloor> = q)"
| "isInteger n = False"

definition isNaN :: "jsnum \<Rightarrow> bool" where
  "isNaN n = (n = NaN)"

text \<open>
  \<^verbatim>\<open>JSON.parse(JSON.stringify(v))\<close> on a value inside a container: \<^verbatim>\<open>undefined\<close> and
  the non-finite numbers become \<^verbatim>\<open>null\<close> in an array, a property whose value is
  \<^verbatim>\<open>undefined\<close> is dropped from an object.
\<close>

fun jsonCopy :: "jsval \<Rightarrow> jsval" where
  "jsonCopy JUndefined = JNull"
| "jsonCopy (JNum (Fin q)) = JNum (Fin q)"
| "jsonCopy (JNum n) = JNull"
| "jsonCopy (JArr xs) = JArr (map jsonCopy xs)"
| "jsonCopy (JObj ps) =
     JObj (map (\<lambda>(k, v). (k, jsonCopy v)) (filter (\<lambda>(k, v). v \<noteq> JUndefined) ps))"
| "jsonCopy v = v"

section \<open>Strings, digits and property reads\<close>

definition isDigit :: "char \<Rightarrow> bool" where
  "isDigit c = (let n = (of_char c :: nat) in 48 \<le> n \<and> n \<le> 57)"

text \<open>The character class \<^verbatim>\<open>[a-zA-Z0-9_]\<close>\<close>

definition isWordChar :: "char \<Rightarrow> bool" where
  "isWordChar c =
     (let n = (of_char c :: nat)
      in (97 \<le> n \<and> n \<le> 122) \<or> (65 \<le> n \<and> n \<le> 90) \<or> (48 \<le> n \<and> n \<le> 57) \<or> n = 95)"

definition digitVal :: "char \<Rightarrow> nat" where
  "digitVal c = of_char c - 48"

text \<open>
  \<^verbatim>\<open>parseInt(s, 10)\<close> on a string of decimal digits. The source gets a double, exact
  below \<open>2^53\<close>; the model keeps the natural number.
\<close>

definition parseInt10 :: "string \<Rightarrow> nat" where
  "parseInt10 s = foldl (\<lambda>n c. 10 * n + digitVal c) 0 s"

function decimal :: "nat \<Rightarrow> string" where
  "decimal n =
     (if n < 10 then [char_of (48 + n)]
      else decimal (n div 10) @ [char_of (48 + n mod 10)])"
  by pat_completeness auto
termination
  by (relation "measure id") auto

text \<open>
  A reference stored in \<^verbatim>\<open>paramRefs\<close> is a name (a string) or a number; the same
  values are the keys of the property reads \<^verbatim>\<open>explicitParams[paramRef]\<close> and
  \<^verbatim>\<open>paramsFromPriorResults[paramRef]\<close>.
\<close>

datatype ref = RefName string | RefIndex nat

fun elemAt :: "jsval list \<Rightarrow> ref \<Rightarrow> jsval" where
  "elemAt xs (RefIndex i) = (if i < length xs then xs ! i else JUndefined)"
| "elemAt xs (RefName s) =
     (if s = ''length'' then JNum (Fin (of_nat (length xs)))
      else (case find (\<lambda>i. decimal i = s) [0..<length xs] of
              Some i \<Rightarrow> xs ! i
            | None \<Rightarrow> JUndefined))"

fun ownProp :: "(string \<times> jsval) list \<Rightarrow> string \<Rightarrow> jsval" where
  "ownProp ps k = (case map_of ps k of Some v \<Rightarrow> v | None \<Rightarrow> JUndefined)"

text \<open>
  \<^verbatim>\<open>v[k]\<close> for a \<open>v\<close> that is neither \<^verbatim>\<open>null\<close> nor \<^verbatim>\<open>undefined\<close> (the callers
  replace those by \<^verbatim>\<open>[]\<close> first). A number or a boolean has no own property. Only
  own properties are read: a name that the source would find on a prototype (such as
  \<^verbatim>\<open>constructor\<close> or \<^verbatim>\<open>toString\<close>) denotes a function there, which is no value of
  \<open>jsval\<close>, and reads \<^verbatim>\<open>undefined\<close> here. This concerns named placeholders with such
  names only; a number read from an array is an own element or \<^verbatim>\<open>undefined\<close> in both.
\<close>

fun getProp :: "jsval \<Rightarrow> ref \<Rightarrow> jsval" where
  "getProp (JArr xs) r = elemAt xs r"
| "getProp (JObj ps) (RefName s) = ownProp ps s"
| "getProp (JObj ps) (RefIndex i) = ownProp ps (decimal i)"
| "getProp (JStr s) r = elemAt (map (\<lambda>c. JStr [c]) s) r"
| "getProp v r = JUndefined"

section \<open>Operation construction: \<^verbatim>\<open>doAction\<close>\<close>

datatype opcode = E | Q | QI | QF | QS

text \<open>
  The value of \<^verbatim>\<open>computeParamShape()\<close>: \<^verbatim>\<open>false\<close>, \<^verbatim>\<open>"scalar"\<close>, \<^verbatim>\<open>"object"\<close>,
  \<^verbatim>\<open>"array"\<close>, \<^verbatim>\<open>"array.array"\<close> or \<^verbatim>\<open>"array.object"\<close>.
\<close>

datatype shape = ShFalse | ShScalar | ShObject | ShArray | ShArrayArray | ShArrayObject

fun shapeText :: "shape \<Rightarrow> string" where
  "shapeText ShFalse = ''false''"
| "shapeText ShScalar = ''scalar''"
| "shapeText ShObject = ''object''"
| "shapeText ShArray = ''array''"
| "shapeText ShArrayArray = ''array.array''"
| "shapeText ShArrayObject = ''array.object''"

record op =
  rawSql :: string
  sql :: string
  paramRefs :: "ref list"
  paramTypes :: "char list"
  bindStyles :: "char set"
  opcode :: opcode
  dflt :: jsval
  paramVals :: jsval
  paramShape :: shape
  isMulti :: bool

subsection \<open>The placeholder pattern\<close>

text \<open>
  \<^verbatim>\<open>/(:[a-zA-Z0-9_]+)|(\?)|(\$[0-9]+)/g\<close>. Both \<^verbatim>\<open>sql.match(re)\<close> and
  \<^verbatim>\<open>sql.replace(re, "?")\<close> walk the text from the left and, at each position, take the
  longest match of the alternative that starts with the character there; a colon or a
  dollar sign that is not followed by a character of its class matches nothing and stays
  in the text. \<open>scan\<close> cuts the text accordingly into matches and single characters.
  The classes of the pattern are ASCII; a text is a list of the 256 characters of
  \<open>char\<close>, and a character beyond ASCII matches nothing, as in the source.
\<close>

datatype seg = Lit char | Tok string

function scan :: "string \<Rightarrow> seg list" where
  "scan [] = []"
| "scan (c # cs) =
     (if c = CHR '':'' \<and> takeWhile isWordChar cs \<noteq> []
        then Tok (c # takeWhile isWordChar cs) # scan (dropWhile isWordChar cs)
      else if c = CHR ''?''
        then Tok [c] # scan cs
      else if c = CHR ''$'' \<and> takeWhile isDigit cs \<noteq> []
        then Tok (c # takeWhile isDigit cs) # scan (dropWhile isDigit cs)
      else Lit c # scan cs)"
  by pat_completeness auto
termination
  by (relation "measure length") (auto simp: length_dropWhile_le less_Suc_eq_le)

text \<open>\<^verbatim>\<open>sql.match(re)\<close>, with \<^verbatim>\<open>null\<close> already replaced by \<^verbatim>\<open>[]\<close>\<close>

fun tokens :: "seg list \<Rightarrow> string list" where
  "tokens [] = []"
| "tokens (Tok t # ss) = t # tokens ss"
| "tokens (Lit c # ss) = tokens ss"

definition regexMatch :: "string \<Rightarrow> string list" where
  "regexMatch s = tokens (scan s)"

text \<open>\<^verbatim>\<open>sql.replace(re, "?")\<close>\<close>

fun segClean :: "seg \<Rightarrow> string" where
  "segClean (Lit c) = [c]"
| "segClean (Tok t) = ''?''"

definition regexReplace :: "string \<Rightarrow> string" where
  "regexReplace s = concat (map segClean (scan s))"

subsection \<open>\<^verbatim>\<open>parseSql\<close>\<close>

text \<open>
  The loop over \<^verbatim>\<open>matches\<close>, with its index \<open>i\<close> and the three accumulators.
  \<^verbatim>\<open>match.charAt(0)\<close> of an empty match would be the empty string, which takes the
  \<^verbatim>\<open>default\<close> branch.
\<close>

function parseLoop ::
  "string list \<Rightarrow> nat \<Rightarrow> ref list \<Rightarrow> char list \<Rightarrow> char set
    \<Rightarrow> error + (ref list \<times> char list \<times> char set)" where
  "parseLoop matches i matchRefs matchTypes styles =
     (if i < length matches then
        (case matches ! i of
           [] \<Rightarrow> Inl (Error ''parse error'')
         | mtype # rest \<Rightarrow>
             if mtype = CHR '':'' then
               parseLoop matches (i + 1) (matchRefs @ [RefName rest]) (matchTypes @ [mtype])
                 (insert mtype styles)
             else if mtype = CHR ''$'' then
               parseLoop matches (i + 1) (matchRefs @ [RefIndex (parseInt10 rest)])
                 (matchTypes @ [mtype]) (insert mtype styles)
             else if mtype = CHR ''?'' then
               parseLoop matches (i + 1) (matchRefs @ [RefIndex i]) (matchTypes @ [mtype])
                 (insert mtype styles)
             else Inl (Error ''parse error''))
      else Inr (matchRefs, matchTypes, styles))"
  by pat_completeness auto
termination
  by (relation "measure (\<lambda>(matches, i, r, t, s). length matches - i)") auto

text \<open>
  The record \<^verbatim>\<open>parseSql\<close> returns; \<^verbatim>\<open>doAction\<close> fills in the other fields
  afterwards, so they are passed in here.
\<close>

definition parseSql ::
  "string \<Rightarrow> opcode \<Rightarrow> jsval \<Rightarrow> jsval \<Rightarrow> shape \<Rightarrow> error + op" where
  "parseSql s oc d params sh =
     (case parseLoop (regexMatch s) 0 [] [] {} of
        Inl e \<Rightarrow> Inl e
      | Inr (matchRefs, matchTypes, styles) \<Rightarrow>
          Inr \<lparr> rawSql = s, sql = regexReplace s, paramRefs = matchRefs,
                paramTypes = matchTypes, bindStyles = styles, opcode = oc, dflt = d,
                paramVals = params, paramShape = sh,
                isMulti = (sh = ShArrayArray \<or> sh = ShArrayObject) \<rparr>)"

subsection \<open>\<^verbatim>\<open>computeParamShape\<close>\<close>

definition computeParamShape :: "jsval \<Rightarrow> shape" where
  "computeParamShape params =
     (if isNullish params then ShFalse
      else (case params of
              JArr xs \<Rightarrow>
                (case xs of
                   [] \<Rightarrow> ShArray
                 | x # _ \<Rightarrow>
                     if isNullish x then ShArray
                     else if isArray x then ShArrayArray
                     else if typeofObject x then ShArrayObject
                     else ShArray)
            | JObj ps \<Rightarrow> ShObject
            | _ \<Rightarrow> ShScalar))"

subsection \<open>The null check on the parameters\<close>

definition nullMessage :: string where
  "nullMessage = ''You have at least one null value in your parameters. That's not going to go well for you.''"

text \<open>One element of a top-level array (the body of the outer \<^verbatim>\<open>forEach\<close>).\<close>

fun paramHasNull :: "jsval \<Rightarrow> bool" where
  "paramHasNull (JArr ys) = (\<exists>p \<in> set ys. isNullish p)"
| "paramHasNull (JObj ps) = (\<exists>p \<in> set (map snd ps). isNullish p)"
| "paramHasNull v = isNullish v"

fun paramsHaveNull :: "jsval \<Rightarrow> bool" where
  "paramsHaveNull (JArr xs) = (\<exists>param \<in> set xs. paramHasNull param)"
| "paramsHaveNull (JObj ps) = (\<exists>p \<in> set (map snd ps). isNullish p)"
| "paramsHaveNull v = False"

subsection \<open>\<^verbatim>\<open>doAction\<close>\<close>

definition dq :: string where
  "dq = [CHR 0x22]"

definition mixedMessage :: "string \<Rightarrow> string" where
  "mixedMessage s =
     ''The SQL statement '' @ dq @ s @ dq @
     '' uses ? placeholders and : named placeholders. Pick one. It won't work to use both in the same SQL statement.''"

definition positionalMessage :: "string \<Rightarrow> shape \<Rightarrow> string" where
  "positionalMessage s sh =
     ''The SQL statement '' @ dq @ s @ dq @ '' uses ? placeholders, but params is '' @
     shapeText sh @ '' instead of a single array, or an array of arrays. '' @
     (if sh = ShScalar then ''You probably mean to wrap your param with [] to form an array?''
      else [])"

definition namedMessage :: "string \<Rightarrow> shape \<Rightarrow> string" where
  "namedMessage s sh =
     ''The SQL statement '' @ dq @ s @ dq @ '' uses : placeholders, but params is '' @
     shapeText sh @ '' instead of a single object, or an array of objects.''"

text \<open>
  \<^verbatim>\<open>doAction(opcode, sql, params, dflt)\<close>. The opcode is one of the five literals the
  Stage methods pass, so \<^verbatim>\<open>!opcode\<close> is false. A \<^verbatim>\<open>throw\<close> is the value \<open>Inl\<close>.
  The function takes no connection and no pool: nothing here can reach the database.
\<close>

definition doAction :: "opcode \<Rightarrow> jsval \<Rightarrow> jsval \<Rightarrow> jsval \<Rightarrow> error + op" where
  "doAction oc sqlv params0 d =
     (let params = (if truthy params0 then jsonCopy params0 else JNull) in
      if \<not> truthy sqlv then Inl (Error ''The SQL provided is blank or missing.'')
      else (case sqlv of
        JStr s \<Rightarrow>
          (case parseSql s oc d params (computeParamShape params) of
             Inl e \<Rightarrow> Inl e
           | Inr op \<Rightarrow>
               if CHR '':'' \<in> bindStyles op \<and> CHR ''?'' \<in> bindStyles op
                 then Inl (Error (mixedMessage s))
               else if CHR ''?'' \<in> bindStyles op \<and> paramShape op \<noteq> ShArray
                       \<and> paramShape op \<noteq> ShArrayArray
                 then Inl (Error (positionalMessage s (paramShape op)))
               else if CHR '':'' \<in> bindStyles op \<and> paramShape op \<noteq> ShObject
                       \<and> paramShape op \<noteq> ShArrayObject
                 then Inl (Error (namedMessage s (paramShape op)))
               else if paramsHaveNull params then Inl (Error nullMessage)
               else Inr op)
      | _ \<Rightarrow> Inl (Error ''The SQL provided is not a string.'')))"

section \<open>The driver and the trace of a finalization\<close>

text \<open>
  The \<^verbatim>\<open>mysql2\<close> driver is outside the library. It is a parameter of the model: a
  record of functions over a world state \<open>'w\<close> (the database, the network, the pools),
  each giving the answer the driver hands to its callback and the next world. A statement
  answers with an error or with a raw result, which is missing, a result header carrying
  \<^verbatim>\<open>affectedRows\<close>, or an array of rows. Acquiring a connection answers with an error
  (and no connection) or with a connection. A driver call always calls back, and throws
  nothing by itself except \<^verbatim>\<open>createPool\<close> and \<^verbatim>\<open>release\<close>, whose exceptions the
  source catches.

  The library runs one finalization as a chain of callbacks; every link is scheduled by
  the previous one, so the calls of one finalization happen in one fixed order. The model
  runs the chain to its end and returns the calls made, in order, with their answers.
\<close>

type_synonym pool = nat
type_synonym conn = nat

datatype raw = RNone | RHeader nat | RRows "jsval list"

datatype event =
    EvCreatePool jsval "error + pool"
  | EvGetConnection pool "error + conn"
  | EvExecute conn string "jsval list" "error + raw"
  | EvBegin conn "error option"
  | EvCommit conn "error option"
  | EvRollback conn "error option"
  | EvRelease conn
  | EvPoolEnd pool

record 'w driver =
  drvCreatePool :: "jsval \<Rightarrow> 'w \<Rightarrow> (error + pool) \<times> 'w"
  drvGetConnection :: "pool \<Rightarrow> 'w \<Rightarrow> (error + conn) \<times> 'w"
  drvExecute :: "conn \<Rightarrow> string \<Rightarrow> jsval list \<Rightarrow> 'w \<Rightarrow> (error + raw) \<times> 'w"
  drvBegin :: "conn \<Rightarrow> 'w \<Rightarrow> error option \<times> 'w"
  drvCommit :: "conn \<Rightarrow> 'w \<Rightarrow> error option \<times> 'w"
  drvRollback :: "conn \<Rightarrow> 'w \<Rightarrow> error option \<times> 'w"
  drvRelease :: "conn \<Rightarrow> 'w \<Rightarrow> error option \<times> 'w"
  drvEnd :: "pool \<Rightarrow> 'w \<Rightarrow> 'w"

text \<open>
  Three built-ins of the language are parameters too: the text of a value
  (\<^verbatim>\<open>"" + v\<close>), \<^verbatim>\<open>parseFloat\<close> and \<^verbatim>\<open>JSON.stringify\<close>.
\<close>

record builtins =
  toText :: "jsval \<Rightarrow> string"
  parseFloat :: "string \<Rightarrow> jsnum"
  stringify :: "jsval \<Rightarrow> string"

text \<open>
  What one Operation hands to its callback: a result, an error, or nothing at all
  because an exception escaped from a callback the driver had called (nothing catches it
  there, and the chain stops).
\<close>

datatype 'a outcome = Ok 'a | Err error | Uncaught error

section \<open>Binding: \<^verbatim>\<open>makeArgs\<close>\<close>

function makeArgsLoop ::
  "ref list \<Rightarrow> char list \<Rightarrow> jsval \<Rightarrow> jsval list \<Rightarrow> nat \<Rightarrow> jsval list
    \<Rightarrow> error + jsval list" where
  "makeArgsLoop refs types explicitParams prior i rv =
     (if i < length refs then
        (let paramRef = refs ! i; paramType = types ! i in
         if paramType = CHR '':'' then
           makeArgsLoop refs types explicitParams prior (i + 1)
             (rv @ [getProp explicitParams paramRef])
         else if paramType = CHR ''$'' then
           makeArgsLoop refs types explicitParams prior (i + 1) (rv @ [elemAt prior paramRef])
         else if paramType = CHR ''?'' then
           makeArgsLoop refs types explicitParams prior (i + 1)
             (rv @ [getProp explicitParams paramRef])
         else Inl (Error ''Internal error: unrecognized param type''))
      else Inr rv)"
  by pat_completeness auto
termination
  by (relation "measure (\<lambda>(refs, types, e, p, i, rv). length refs - i)") auto

definition makeArgs ::
  "ref list \<Rightarrow> char list \<Rightarrow> jsval \<Rightarrow> jsval list \<Rightarrow> error + jsval list" where
  "makeArgs refs types explicitParams prior =
     (if length refs \<noteq> length types then
        Inl (Error (''paramRefs.length != paramTypes.length: '' @ decimal (length refs) @
                    '' vs '' @ decimal (length types)))
      else makeArgsLoop refs types
             (if isNullish explicitParams then JArr [] else explicitParams) prior 0 [])"

section \<open>Running one Operation\<close>

text \<open>
  \<^verbatim>\<open>paramVals\<close> as \<^verbatim>\<open>doExecute\<close> and \<^verbatim>\<open>doQuery\<close> use it: the one-element
  array \<^verbatim>\<open>[paramVals]\<close>, or, for a multi-row Operation, the parameter array itself.
  \<^verbatim>\<open>isMulti\<close> is set only when the parameters are an array, so the last equation of
  \<open>arrayElems\<close> is never used on an Operation that \<open>doAction\<close> built.
\<close>

fun arrayElems :: "jsval \<Rightarrow> jsval list" where
  "arrayElems (JArr xs) = xs"
| "arrayElems v = []"

definition execParams :: "op \<Rightarrow> jsval list" where
  "execParams p = (if isMulti p then arrayElems (paramVals p) else [paramVals p])"

text \<open>
  \<^verbatim>\<open>resultsFromThisExec && resultsFromThisExec.affectedRows ? ... : 0\<close>: an array of
  rows has no such property.
\<close>

fun affectedRows :: "raw \<Rightarrow> nat" where
  "affectedRows (RHeader n) = n"
| "affectedRows r = 0"

text \<open>
  \<^verbatim>\<open>doNextExec\<close> inside \<^verbatim>\<open>doExecute\<close>. The first round runs inside the
  \<^verbatim>\<open>try\<close> block; the later rounds are started by \<^verbatim>\<open>process.nextTick\<close>, outside it.
  The count is a natural number (a double in the source, exact below \<open>2^53\<close>). The
  diagnostic \<^verbatim>\<open>console.log\<close> under \<^verbatim>\<open>dbcfg.echo\<close> is left out.
\<close>

function doNextExecE ::
  "'w driver \<Rightarrow> conn \<Rightarrow> op \<Rightarrow> jsval list \<Rightarrow> jsval list \<Rightarrow> nat \<Rightarrow> nat \<Rightarrow> 'w
    \<Rightarrow> jsval outcome \<times> 'w \<times> event list" where
  "doNextExecE d c p resultsSoFar pvs i totalRows w =
     (if i \<ge> length pvs then (Ok (JNum (Fin (of_nat totalRows))), w, [])
      else (case makeArgs (paramRefs p) (paramTypes p) (pvs ! i) resultsSoFar of
              Inl e \<Rightarrow> (if i = 0 then Err e else Uncaught e, w, [])
            | Inr args \<Rightarrow>
                (case drvExecute d c (sql p) args w of
                   (Inl err, w') \<Rightarrow> (Err err, w', [EvExecute c (sql p) args (Inl err)])
                 | (Inr r, w') \<Rightarrow>
                     (case doNextExecE d c p resultsSoFar pvs (i + 1)
                             (totalRows + affectedRows r) w' of
                        (out, w'', tr) \<Rightarrow>
                          (out, w'', EvExecute c (sql p) args (Inr r) # tr)))))"
  by pat_completeness auto
termination
  by (relation "measure (\<lambda>(d, c, p, rs, pvs, i, n, w). length pvs - i)") auto

definition doExecute ::
  "'w driver \<Rightarrow> conn \<Rightarrow> op \<Rightarrow> jsval list \<Rightarrow> 'w \<Rightarrow> jsval outcome \<times> 'w \<times> event list" where
  "doExecute d c p resultsSoFar w = doNextExecE d c p resultsSoFar (execParams p) 0 0 w"

section \<open>The result coercer: \<^verbatim>\<open>formatResult\<close>\<close>

text \<open>
  The properties a \<^verbatim>\<open>for ... in\<close> loop visits, with their values. The loop over
  \<^verbatim>\<open>null\<close>, \<^verbatim>\<open>undefined\<close>, a number or a boolean has no round.
\<close>

fun enumerable :: "jsval \<Rightarrow> (string \<times> jsval) list" where
  "enumerable (JObj ps) = ps"
| "enumerable (JArr xs) = zip (map decimal [0..<length xs]) xs"
| "enumerable (JStr s) = zip (map decimal [0..<length s]) (map (\<lambda>c. JStr [c]) s)"
| "enumerable v = []"

text \<open>The body of the \<^verbatim>\<open>for\<close> loop of the scalar opcodes, which returns in its first round.\<close>

definition formatScalar :: "builtins \<Rightarrow> op \<Rightarrow> jsval \<Rightarrow> jsval" where
  "formatScalar b p vl =
     (if isNullish vl then dflt p
      else (case opcode p of
         QI \<Rightarrow>
           (if (case vl of JNum n \<Rightarrow> isInteger n | _ \<Rightarrow> False) then vl
            else (let n = parseFloat b (toText b vl) in
                  if isNaN n \<or> \<not> isInteger n then dflt p else JNum n))
       | QF \<Rightarrow>
           (if (case vl of JNum n \<Rightarrow> \<not> isNaN n | _ \<Rightarrow> False) then vl
            else (let n = parseFloat b (toText b vl) in
                  if isNaN n then dflt p else JNum n))
       | QS \<Rightarrow> (case vl of JStr s \<Rightarrow> vl | _ \<Rightarrow> JStr (toText b vl))
       | _ \<Rightarrow> vl))"

text \<open>
  \<^verbatim>\<open>formatResult(op, resultSet)\<close>. For opcode \<^verbatim>\<open>'q'\<close> the source calls
  \<^verbatim>\<open>resultSet.forEach\<close>, which throws a TypeError when the raw result is missing or is
  a header.
\<close>

definition formatResult :: "builtins \<Rightarrow> op \<Rightarrow> raw \<Rightarrow> error + jsval" where
  "formatResult b p resultSet =
     (if opcode p = Q then
        (case resultSet of
           RRows rows \<Rightarrow> Inr (JArr (map (\<lambda>row. JObj (enumerable row)) rows))
         | RHeader n \<Rightarrow> Inl (TypeError ''resultSet.forEach is not a function'')
         | RNone \<Rightarrow> Inl (TypeError ''Cannot read properties of null (reading 'forEach')''))
      else
        (case resultSet of
           RNone \<Rightarrow> Inr (dflt p)
         | RHeader n \<Rightarrow> Inr (dflt p)
         | RRows [] \<Rightarrow> Inr (dflt p)
         | RRows (resultRow # rest) \<Rightarrow>
             if \<not> truthy resultRow then Inr (dflt p)
             else (case enumerable resultRow of
                     [] \<Rightarrow> Inr (dflt p)
                   | (k, vl) # others \<Rightarrow> Inr (formatScalar b p vl))))"

text \<open>
  \<^verbatim>\<open>doNextExec\<close> inside \<^verbatim>\<open>doQuery\<close>. \<^verbatim>\<open>formatResult\<close> runs in the callback the
  driver calls, so an exception of it is caught by nobody.
\<close>

function doNextExecQ ::
  "builtins \<Rightarrow> 'w driver \<Rightarrow> conn \<Rightarrow> op \<Rightarrow> jsval list \<Rightarrow> jsval list \<Rightarrow> nat \<Rightarrow> jsval list
    \<Rightarrow> 'w \<Rightarrow> jsval outcome \<times> 'w \<times> event list" where
  "doNextExecQ b d c p resultsSoFar pvs i resultsFromThisOp w =
     (if i \<ge> length pvs then
        (Ok (if \<not> isMulti p then elemAt resultsFromThisOp (RefIndex 0)
             else JArr resultsFromThisOp), w, [])
      else (case makeArgs (paramRefs p) (paramTypes p) (pvs ! i) resultsSoFar of
              Inl e \<Rightarrow> (if i = 0 then Err e else Uncaught e, w, [])
            | Inr args \<Rightarrow>
                (case drvExecute d c (sql p) args w of
                   (Inl err, w') \<Rightarrow> (Err err, w', [EvExecute c (sql p) args (Inl err)])
                 | (Inr r, w') \<Rightarrow>
                     (case formatResult b p r of
                        Inl e \<Rightarrow> (Uncaught e, w', [EvExecute c (sql p) args (Inr r)])
                      | Inr v \<Rightarrow>
                          (case doNextExecQ b d c p resultsSoFar pvs (i + 1)
                                  (resultsFromThisOp @ [v]) w' of
                             (out, w'', tr) \<Rightarrow>
                               (out, w'', EvExecute c (sql p) args (Inr r) # tr))))))"
  by pat_completeness auto
termination
  by (relation "measure (\<lambda>(b, d, c, p, rs, pvs, i, acc, w). length pvs - i)") auto

definition doQuery ::
  "builtins \<Rightarrow> 'w driver \<Rightarrow> conn \<Rightarrow> op \<Rightarrow> jsval list \<Rightarrow> 'w
    \<Rightarrow> jsval outcome \<times> 'w \<times> event list" where
  "doQuery b d c p resultsSoFar w = doNextExecQ b d c p resultsSoFar (execParams p) 0 [] w"

section \<open>The Stage and the pool registry\<close>

text \<open>
  A Stage (\<^verbatim>\<open>DbStage\<close>) holds the configuration it was made with and the array
  \<^verbatim>\<open>ops\<close>; \<^verbatim>\<open>doFinale\<close> sets the property \<^verbatim>\<open>finaleComplete\<close> on that array.
\<close>

record stage =
  stCfg :: jsval
  stOps :: "op list"
  finaleComplete :: bool

definition newStage :: "jsval \<Rightarrow> stage" where
  "newStage connectionInfo = \<lparr> stCfg = connectionInfo, stOps = [], finaleComplete = False \<rparr>"

text \<open>
  The five methods push the Operation that \<open>doAction\<close> returns; when \<open>doAction\<close> throws,
  the exception leaves the method and the Stage is as before.
\<close>

definition pushOp :: "stage \<Rightarrow> error + op \<Rightarrow> error + stage" where
  "pushOp st r = (case r of Inl e \<Rightarrow> Inl e | Inr p \<Rightarrow> Inr (st\<lparr> stOps := stOps st @ [p] \<rparr>))"

definition execute :: "stage \<Rightarrow> jsval \<Rightarrow> jsval \<Rightarrow> error + stage" where
  "execute st sqlv params = pushOp st (doAction E sqlv params JNull)"

definition query :: "stage \<Rightarrow> jsval \<Rightarrow> jsval \<Rightarrow> error + stage" where
  "query st sqlv params = pushOp st (doAction Q sqlv params JNull)"

definition queryInt :: "stage \<Rightarrow> jsval \<Rightarrow> jsval \<Rightarrow> jsval \<Rightarrow> error + stage" where
  "queryInt st sqlv params d = pushOp st (doAction QI sqlv params d)"

definition queryFloat :: "stage \<Rightarrow> jsval \<Rightarrow> jsval \<Rightarrow> jsval \<Rightarrow> error + stage" where
  "queryFloat st sqlv params d = pushOp st (doAction QF sqlv params d)"

definition queryString :: "stage \<Rightarrow> jsval \<Rightarrow> jsval \<Rightarrow> jsval \<Rightarrow> error + stage" where
  "queryString st sqlv params d = pushOp st (doAction QS sqlv params d)"

text \<open>
  \<^verbatim>\<open>POOL_FUNCTIONS\<close>: the pools made so far, by key and in the order they were made,
  and the flag \<^verbatim>\<open>_closing\<close>.
\<close>

record poolFunctions =
  pools :: "(string \<times> pool) list"
  closing :: bool

definition isClosing :: "poolFunctions \<Rightarrow> bool" where
  "isClosing pf = closing pf"

definition getPool ::
  "builtins \<Rightarrow> 'w driver \<Rightarrow> poolFunctions \<Rightarrow> jsval \<Rightarrow> 'w
    \<Rightarrow> (error + pool) \<times> poolFunctions \<times> 'w \<times> event list" where
  "getPool b d pf dbcfg w =
     (if \<not> truthy dbcfg then
        (Inl (Error ''Null database configuration info; be sure to provide username, password, etc.''),
         pf, w, [])
      else
        (let key = (case dbcfg of JStr s \<Rightarrow> s | _ \<Rightarrow> stringify b dbcfg) in
         case map_of (pools pf) key of
           Some pool \<Rightarrow> (Inr pool, pf, w, [])
         | None \<Rightarrow>
             (case drvCreatePool d dbcfg w of
                (Inl err, w') \<Rightarrow> (Inl err, pf, w', [EvCreatePool dbcfg (Inl err)])
              | (Inr pool, w') \<Rightarrow>
                  (Inr pool, pf\<lparr> pools := pools pf @ [(key, pool)] \<rparr>, w',
                   [EvCreatePool dbcfg (Inr pool)]))))"

text \<open>
  \<^verbatim>\<open>getConnection\<close> and its guard \<^verbatim>\<open>!pool\<close>: a pool the driver has made is an
  object, so the guard is false.
\<close>

definition getConnection ::
  "'w driver \<Rightarrow> pool \<Rightarrow> 'w \<Rightarrow> (error + conn) \<times> 'w \<times> event list" where
  "getConnection d pool w =
     (case drvGetConnection d pool w of (r, w') \<Rightarrow> (r, w', [EvGetConnection pool r]))"

text \<open>
  \<^verbatim>\<open>releaseConnection\<close> catches what \<^verbatim>\<open>conn.release()\<close> throws and passes it to a
  callback; the callbacks \<^verbatim>\<open>finalize\<close> gives it take no argument.
\<close>

definition releaseConnection :: "'w driver \<Rightarrow> conn \<Rightarrow> 'w \<Rightarrow> error option \<times> 'w \<times> event list" where
  "releaseConnection d c w = (case drvRelease d c w of (r, w') \<Rightarrow> (r, w', [EvRelease c]))"

section \<open>Finalization: \<^verbatim>\<open>doFinale\<close>\<close>

text \<open>
  The callback given to \<^verbatim>\<open>finale\<close>: a function, or any other value (\<^verbatim>\<open>undefined\<close>
  when it is left out). Calling a value that is not a function throws a TypeError.
\<close>

datatype callback = Fn | NotFn jsval

text \<open>
  How a call of \<^verbatim>\<open>finale\<close> ends: the callback is called with \<^verbatim>\<open>(err, rv)\<close>; or
  \<^verbatim>\<open>finale\<close> itself throws; or an exception escapes inside the chain and the callback
  is never called.
\<close>

datatype finaleResult = Delivered "error option" jsval | Thrown error | Crashed error

text \<open>\<^verbatim>\<open>return cb(new Error(...))\<close> in the guards of \<^verbatim>\<open>doFinale\<close>\<close>

fun callCb :: "callback \<Rightarrow> error \<Rightarrow> finaleResult" where
  "callCb Fn e = Delivered (Some e) JUndefined"
| "callCb (NotFn v) e = Thrown (TypeError ''cb is not a function'')"

text \<open>
  The function \<^verbatim>\<open>fn\<close> that \<^verbatim>\<open>fillInResults\<close> picks for the next Operation,
  applied as it is there: \<^verbatim>\<open>doExecute\<close> for opcode \<^verbatim>\<open>'e'\<close>, else \<^verbatim>\<open>doQuery\<close>.
\<close>

definition nextFn ::
  "builtins \<Rightarrow> 'w driver \<Rightarrow> conn \<Rightarrow> op \<Rightarrow> jsval list \<Rightarrow> 'w
    \<Rightarrow> jsval outcome \<times> 'w \<times> event list" where
  "nextFn b d c nextOp results w =
     (if opcode nextOp = E then doExecute d c nextOp results w
      else doQuery b d c nextOp results w)"

text \<open>
  \<^verbatim>\<open>fillInResults\<close>. \<^verbatim>\<open>ops[results.length]\<close> beyond the array is \<^verbatim>\<open>undefined\<close>,
  and reading its \<^verbatim>\<open>opcode\<close> throws inside the \<^verbatim>\<open>try\<close> block.
\<close>

function fillInResults ::
  "builtins \<Rightarrow> 'w driver \<Rightarrow> conn \<Rightarrow> op list \<Rightarrow> jsval list \<Rightarrow> 'w
    \<Rightarrow> unit outcome \<times> jsval list \<times> 'w \<times> event list" where
  "fillInResults b d c opers results w =
     (if length opers = length results then (Ok (), results, w, [])
      else if length opers < length results then
        (Err (TypeError ''Cannot read properties of undefined (reading 'opcode')''),
         results, w, [])
      else
        (case nextFn b d c (opers ! length results) results w of
           (Err err, w', tr) \<Rightarrow> (Err err, results, w', tr)
         | (Uncaught e, w', tr) \<Rightarrow> (Uncaught e, results, w', tr)
         | (Ok result, w', tr) \<Rightarrow>
             (case fillInResults b d c opers (results @ [result]) w' of
                (out, results', w'', tr') \<Rightarrow> (out, results', w'', tr @ tr'))))"
  by pat_completeness auto
termination
  by (relation "measure (\<lambda>(b, d, c, opers, results, w). length opers - length results)") auto

text \<open>
  \<^verbatim>\<open>finalize(conn, err)\<close>, with the variables of \<^verbatim>\<open>doFinale\<close> it reads. Neither the
  callback of \<^verbatim>\<open>conn.rollback\<close> nor the one of \<^verbatim>\<open>releaseConnection\<close> looks at its
  argument.
\<close>

definition finalize ::
  "'w driver \<Rightarrow> bool \<Rightarrow> bool \<Rightarrow> jsval list \<Rightarrow> conn option \<Rightarrow> error option \<Rightarrow> 'w
    \<Rightarrow> finaleResult \<times> 'w \<times> event list" where
  "finalize d singularOperation transactionHasStarted results co err w =
     (let rv = (if singularOperation then elemAt results (RefIndex 0) else JArr results) in
      case co of
        Some c \<Rightarrow>
          if transactionHasStarted then
            (case drvRollback d c w of
               (rbErr, w1) \<Rightarrow>
                 (case releaseConnection d c w1 of
                    (relErr, w2, tr) \<Rightarrow> (Delivered err rv, w2, EvRollback c rbErr # tr)))
          else
            (case releaseConnection d c w of
               (relErr, w2, tr) \<Rightarrow> (Delivered err rv, w2, tr))
      | None \<Rightarrow> (Delivered err rv, w, []))"

definition setCommitOp :: "bool \<Rightarrow> error + op" where
  "setCommitOp bTransact =
     doAction E (JStr (''SET autocommit='' @ (if bTransact then ''0'' else ''1'')))
       JUndefined JUndefined"

text \<open>What follows the \<^verbatim>\<open>SET autocommit\<close> statement, on the connection \<open>c\<close>.\<close>

definition runOps ::
  "builtins \<Rightarrow> 'w driver \<Rightarrow> bool \<Rightarrow> bool \<Rightarrow> op list \<Rightarrow> conn \<Rightarrow> 'w
    \<Rightarrow> finaleResult \<times> 'w \<times> event list" where
  "runOps b d singularOperation bTransact opers c w =
     (if bTransact then
        (case drvBegin d c w of
           (Some err, w1) \<Rightarrow>
             (case finalize d singularOperation False [] (Some c) (Some err) w1 of
                (r, w2, tr) \<Rightarrow> (r, w2, EvBegin c (Some err) # tr))
         | (None, w1) \<Rightarrow>
             (case fillInResults b d c opers [] w1 of
                (Uncaught e, results, w2, tr) \<Rightarrow> (Crashed e, w2, EvBegin c None # tr)
              | (Err err, results, w2, tr) \<Rightarrow>
                  (case finalize d singularOperation True results (Some c) (Some err) w2 of
                     (r, w3, tr') \<Rightarrow> (r, w3, EvBegin c None # tr @ tr'))
              | (Ok u, results, w2, tr) \<Rightarrow>
                  (case drvCommit d c w2 of
                     (cmErr, w3) \<Rightarrow>
                       (case finalize d singularOperation True results (Some c) cmErr w3 of
                          (r, w4, tr') \<Rightarrow>
                            (r, w4, EvBegin c None # tr @ EvCommit c cmErr # tr')))))
      else
        (case fillInResults b d c opers [] w of
           (Uncaught e, results, w2, tr) \<Rightarrow> (Crashed e, w2, tr)
         | (Err err, results, w2, tr) \<Rightarrow>
             (case finalize d singularOperation False results (Some c) (Some err) w2 of
                (r, w3, tr') \<Rightarrow> (r, w3, tr @ tr'))
         | (Ok u, results, w2, tr) \<Rightarrow>
             (case finalize d singularOperation False results (Some c) None w2 of
                (r, w3, tr') \<Rightarrow> (r, w3, tr @ tr'))))"

text \<open>
  The chain \<^verbatim>\<open>doFinale\<close> starts once its guards have passed: pool, connection,
  \<^verbatim>\<open>SET autocommit\<close>, then \<open>runOps\<close>. When the driver answers \<^verbatim>\<open>getConnection\<close>
  with an error there is no connection to release.
\<close>

definition runFinale ::
  "builtins \<Rightarrow> 'w driver \<Rightarrow> poolFunctions \<Rightarrow> jsval \<Rightarrow> bool \<Rightarrow> op list \<Rightarrow> 'w
    \<Rightarrow> finaleResult \<times> poolFunctions \<times> 'w \<times> event list" where
  "runFinale b d pf dbcfg bTransact opers w =
     (let singularOperation = (length opers = 1) in
      case getPool b d pf dbcfg w of
        (Inl err, pf1, w1, t1) \<Rightarrow>
          (case finalize d singularOperation False [] None (Some err) w1 of
             (r, w2, tr) \<Rightarrow> (r, pf1, w2, t1 @ tr))
      | (Inr pool, pf1, w1, t1) \<Rightarrow>
          (case getConnection d pool w1 of
             (Inl err, w2, t2) \<Rightarrow>
               (case finalize d singularOperation False [] None (Some err) w2 of
                  (r, w3, tr) \<Rightarrow> (r, pf1, w3, t1 @ t2 @ tr))
           | (Inr c, w2, t2) \<Rightarrow>
               (case setCommitOp bTransact of
                  Inl e \<Rightarrow> (Crashed e, pf1, w2, t1 @ t2)
                | Inr sc \<Rightarrow>
                    (case doExecute d c sc [] w2 of
                       (Uncaught e, w3, t3) \<Rightarrow> (Crashed e, pf1, w3, t1 @ t2 @ t3)
                     | (Err err, w3, t3) \<Rightarrow>
                         (case finalize d singularOperation False [] (Some c) (Some err) w3 of
                            (r, w4, tr) \<Rightarrow> (r, pf1, w4, t1 @ t2 @ t3 @ tr))
                     | (Ok v, w3, t3) \<Rightarrow>
                         (case runOps b d singularOperation bTransact opers c w3 of
                            (r, w4, tr) \<Rightarrow> (r, pf1, w4, t1 @ t2 @ t3 @ tr))))))"

definition closingError :: error where
  "closingError = Error ''Databases are closing down.''"

definition alreadyError :: error where
  "alreadyError = Error ''You already had your finale on this stage. Go get a new stage.''"

definition forgotError :: error where
  "forgotError =
     Error (CHR ''O'' # ''ops, you forgot to provide a function to call back after the finale.'')"

definition configError :: error where
  "configError = Error ''Internal error: config not passed through''"

text \<open>
  \<^verbatim>\<open>doFinale(dbcfg, bTransact, ops, cb)\<close>, on the Stage that holds \<^verbatim>\<open>dbcfg\<close> and
  \<^verbatim>\<open>ops\<close>. The guard \<^verbatim>\<open>!ops\<close> is left out: \<^verbatim>\<open>ops\<close> is the array the Stage made,
  and an array is truthy. Each guard is \<^verbatim>\<open>return cb(new Error(...))\<close>.
\<close>

definition doFinale ::
  "builtins \<Rightarrow> 'w driver \<Rightarrow> poolFunctions \<Rightarrow> stage \<Rightarrow> bool \<Rightarrow> callback \<Rightarrow> 'w
    \<Rightarrow> finaleResult \<times> poolFunctions \<times> stage \<times> 'w \<times> event list" where
  "doFinale b d pf st bTransact cb w =
     (if isClosing pf then (callCb cb closingError, pf, st, w, [])
      else if \<not> truthy (stCfg st) then (callCb cb configError, pf, st, w, [])
      else if cb \<noteq> Fn then (callCb cb forgotError, pf, st, w, [])
      else if finaleComplete st then (callCb cb alreadyError, pf, st, w, [])
      else
        (case runFinale b d pf (stCfg st) bTransact (stOps st) w of
           (r, pf', w', tr) \<Rightarrow> (r, pf', st\<lparr> finaleComplete := True \<rparr>, w', tr)))"

text \<open>\<^verbatim>\<open>this.finale = (callback, autocommit) => doFinale(cfg, !autocommit, ops, callback)\<close>\<close>

definition finale ::
  "builtins \<Rightarrow> 'w driver \<Rightarrow> poolFunctions \<Rightarrow> stage \<Rightarrow> callback \<Rightarrow> jsval \<Rightarrow> 'w
    \<Rightarrow> finaleResult \<times> poolFunctions \<times> stage \<times> 'w \<times> event list" where
  "finale b d pf st cb autocommit w = doFinale b d pf st (\<not> truthy autocommit) cb w"

section \<open>Shutdown: \<^verbatim>\<open>curtains\<close>\<close>

text \<open>
  The order in which \<^verbatim>\<open>for (var p in POOL_FUNCTIONS._pools)\<close> visits the keys: those
  that are array indices (the decimal text, without a leading zero, of a number below
  \<open>2^32 - 1\<close>) first, by ascending number, then the others in the order they were
  added.
\<close>

definition indexOfKey :: "string \<Rightarrow> int" where
  "indexOfKey k = foldl (\<lambda>n c. 10 * n + int (digitVal c)) 0 k"

definition isIndexKey :: "string \<Rightarrow> bool" where
  "isIndexKey k =
     (k \<noteq> [] \<and> list_all isDigit k \<and> (k = ''0'' \<or> hd k \<noteq> CHR ''0'')
      \<and> indexOfKey k < 4294967295)"

definition forInOrder :: "(string \<times> 'a) list \<Rightarrow> (string \<times> 'a) list" where
  "forInOrder ps =
     sort_key (\<lambda>(k, v). indexOfKey k) (filter (\<lambda>(k, v). isIndexKey k) ps)
     @ filter (\<lambda>(k, v). \<not> isIndexKey k) ps"

text \<open>
  \<^verbatim>\<open>doCurtains\<close> sets the flag, collects the pools in that order, then ends them one
  after the other, the last one collected first (\<^verbatim>\<open>poolsToClose.pop()\<close>). Nothing in
  the source sets the flag back. The callback of \<^verbatim>\<open>curtains\<close>, called after the last
  pool has ended, is left out.
\<close>

fun closeNextPool :: "'w driver \<Rightarrow> pool list \<Rightarrow> 'w \<Rightarrow> 'w \<times> event list" where
  "closeNextPool d [] w = (w, [])"
| "closeNextPool d (pool # poolsToClose) w =
     (case closeNextPool d poolsToClose (drvEnd d pool w) of
        (w', tr) \<Rightarrow> (w', EvPoolEnd pool # tr))"

definition doCurtains ::
  "'w driver \<Rightarrow> poolFunctions \<Rightarrow> 'w \<Rightarrow> poolFunctions \<times> 'w \<times> event list" where
  "doCurtains d pf w =
     (case closeNextPool d (rev (map snd (forInOrder (pools pf)))) w of
        (w', tr) \<Rightarrow> (pf\<lparr> closing := True \<rparr>, w', tr))"

text \<open>
  The states of the registry and the world that the calls the library offers can lead
  to, from a given one: any number of finalizations (of any Stage, with any callback) and
  shutdowns, each run to its end before the next starts. Building a Stage and adding
  Operations to it touches neither.
\<close>

inductive reach ::
  "builtins \<Rightarrow> 'w driver \<Rightarrow> poolFunctions \<times> 'w \<Rightarrow> poolFunctions \<times> 'w \<Rightarrow> bool"
  for b :: builtins and d :: "'w driver" and s0 :: "poolFunctions \<times> 'w" where
  reach_start: "reach b d s0 s0"
| reach_finale:
    "reach b d s0 (pf, w) \<Longrightarrow> finale b d pf st cb autocommit w = (r, pf', st', w', tr)
      \<Longrightarrow> reach b d s0 (pf', w')"
| reach_curtains:
    "reach b d s0 (pf, w) \<Longrightarrow> doCurtains d pf w = (pf', w', tr) \<Longrightarrow> reach b d s0 (pf', w')"

text \<open>
  The Stages a program can hold: a new one, one that a method has pushed an Operation
  on, one that \<^verbatim>\<open>finale\<close> has been called on.
\<close>

inductive stageOf :: "builtins \<Rightarrow> 'w driver \<Rightarrow> stage \<Rightarrow> bool"
  for b :: builtins and d :: "'w driver" where
  stage_new: "stageOf b d (newStage connectionInfo)"
| stage_push:
    "stageOf b d st \<Longrightarrow> pushOp st (doAction oc sqlv params dv) = Inr st' \<Longrightarrow> stageOf b d st'"
| stage_finale:
    "stageOf b d st \<Longrightarrow> finale b d pf st cb autocommit w = (r, pf', st', w', tr)
      \<Longrightarrow> stageOf b d st'"

section \<open>Notions used to state the properties\<close>

text \<open>The three characters a match of the placeholder pattern can start with.\<close>

definition isMark :: "char \<Rightarrow> bool" where
  "isMark c = (c = CHR '':'' \<or> c = CHR ''?'' \<or> c = CHR ''$'')"

text \<open>The reference a match at index \<open>i\<close> of the match list stands for.\<close>

definition refOf :: "nat \<Rightarrow> string \<Rightarrow> ref" where
  "refOf i t =
     (case t of
        [] \<Rightarrow> RefIndex i
      | c # r \<Rightarrow>
          if c = CHR '':'' then RefName r
          else if c = CHR ''$'' then RefIndex (parseInt10 r)
          else RefIndex i)"





text \<open>The value \<^verbatim>\<open>makeArgs\<close> binds at position \<open>j\<close>.\<close>

definition argOf :: "ref list \<Rightarrow> char list \<Rightarrow> jsval \<Rightarrow> jsval list \<Rightarrow> nat \<Rightarrow> jsval" where
  "argOf refs types explicitParams prior j =
     (if types ! j = CHR ''$'' then elemAt prior (refs ! j)
      else getProp explicitParams (refs ! j))"





text \<open>Reading a trace: statements that failed, their errors, the rows they affected.\<close>

fun evFailed :: "event \<Rightarrow> bool" where
  "evFailed (EvExecute c s args (Inl e)) = True"
| "evFailed ev = False"



fun isExecute :: "event \<Rightarrow> bool" where
  "isExecute (EvExecute c s args r) = True"
| "isExecute ev = False"

text \<open>
  The Operations \<open>ps\<close> have run in this order on connection \<open>c\<close>, from the world \<open>w\<close>
  to the world \<open>w'\<close>, and \<open>rs\<close> are their results: each Operation ran in the world the
  one before it left, with the results of those before it as \<^verbatim>\<open>resultsSoFar\<close>, and
  handed its result to its callback.
\<close>

inductive ranOps ::
  "builtins \<Rightarrow> 'w driver \<Rightarrow> conn \<Rightarrow> op list \<Rightarrow> jsval list \<Rightarrow> 'w \<Rightarrow> 'w \<Rightarrow> bool"
  for b :: builtins and d :: "'w driver" and c :: conn where
  ran_none: "ranOps b d c [] [] w w"
| ran_next:
    "ranOps b d c ps rs w w1 \<Longrightarrow> nextFn b d c p rs w1 = (Ok r, w2, tr)
      \<Longrightarrow> ranOps b d c (ps @ [p]) (rs @ [r]) w w2"

text \<open>
  Shapes of traces. A statement trace on \<open>c\<close> is made of statements that succeeded,
  with at most one failed statement, the last, whose error is the one reported. A
  finalization trace either has no failed statement, or has exactly one, followed by
  the rollback (when the transaction had begun) and the release, with the error of the
  failed statement delivered.
\<close>

fun evOkOn :: "conn \<Rightarrow> event \<Rightarrow> bool" where
  "evOkOn c (EvExecute c' s a (Inr r)) = (c' = c)"
| "evOkOn c ev = False"

fun evOn :: "conn \<Rightarrow> event \<Rightarrow> bool" where
  "evOn c (EvExecute c' s a r) = (c' = c)"
| "evOn c (EvBegin c' r) = (c' = c)"
| "evOn c (EvCommit c' r) = (c' = c)"
| "evOn c (EvRollback c' r) = (c' = c)"
| "evOn c (EvRelease c') = (c' = c)"
| "evOn c ev = False"

fun errOf :: "'a outcome \<Rightarrow> error option" where
  "errOf (Err e) = Some e"
| "errOf out = None"

definition stmtShape :: "conn \<Rightarrow> error option \<Rightarrow> event list \<Rightarrow> bool" where
  "stmtShape c eo tr =
     (list_all (evOkOn c) tr
      \<or> (\<exists>tr0 s a e. eo = Some e \<and> tr = tr0 @ [EvExecute c s a (Inl e)]
            \<and> list_all (evOkOn c) tr0))"

definition failShape :: "finaleResult \<Rightarrow> event list \<Rightarrow> bool" where
  "failShape r tr =
     ((\<forall>ev \<in> set tr. \<not> evFailed ev)
      \<or> (\<exists>A c s a e rv B. tr = A @ EvExecute c s a (Inl e) # B
            \<and> (\<forall>ev \<in> set A. \<not> evFailed ev) \<and> r = Delivered (Some e) rv
            \<and> ((EvBegin c None \<in> set A \<and> (\<exists>rb. B = [EvRollback c rb, EvRelease c]))
               \<or> (EvBegin c None \<notin> set A \<and> B = [EvRelease c]))))"

fun isCreatePool :: "event \<Rightarrow> bool" where
  "isCreatePool (EvCreatePool dbcfg r) = True"
| "isCreatePool ev = False"

section \<open>A driver to run the model on\<close>

text \<open>
  A small driver for concrete runs: its world counts the statements executed; the
  statement \<^verbatim>\<open>this is garbage\<close> fails, an \<^verbatim>\<open>insert\<close> affects one row, a
  \<^verbatim>\<open>select\<close> returns one row with one column, and every rollback fails.
\<close>

definition demoBuiltins :: builtins where
  "demoBuiltins =
     \<lparr> toText = (\<lambda>v. case v of JStr s \<Rightarrow> s | _ \<Rightarrow> ''[object Object]''),
       parseFloat = (\<lambda>s. if s = ''12'' then Fin 12
                          else if s = ''42.5'' then Fin (85 / 2) else NaN),
       stringify = (\<lambda>v. ''{}'') \<rparr>"

definition demoDriver :: "nat driver" where
  "demoDriver =
     \<lparr> drvCreatePool = (\<lambda>dbcfg w. (Inr 0, w)),
       drvGetConnection = (\<lambda>pool w. (Inr 7, w)),
       drvExecute = (\<lambda>c s args w.
          (if s = ''this is garbage'' then Inl (DriverError ''syntax error'')
           else if take 6 s = ''insert'' then Inr (RHeader 1)
           else if take 6 s = ''select'' then Inr (RRows [JObj [(''ttl'', JNum (Fin 2))]])
           else Inr (RHeader 0), Suc w)),
       drvBegin = (\<lambda>c w. (None, w)),
       drvCommit = (\<lambda>c w. (None, w)),
       drvRollback = (\<lambda>c w. (Some (DriverError ''rollback failed''), w)),
       drvRelease = (\<lambda>c w. (None, w)),
       drvEnd = (\<lambda>pool w. w) \<rparr>"

definition demoPf :: poolFunctions where
  "demoPf = \<lparr> pools = [], closing = False \<rparr>"

definition demoCfg :: jsval where
  "demoCfg = JObj [(''user'', JStr ''me'')]"

definition demoSealed :: stage where
  "demoSealed = \<lparr> stCfg = demoCfg, stOps = [], finaleComplete = True \<rparr>"

text \<open>Four rows for one \<^verbatim>\<open>insert\<close>, and the Operation \<^verbatim>\<open>execute\<close> builds of them.\<close>

definition demoRows :: jsval where
  "demoRows = JArr [JArr [JNum (Fin 2), JStr ''a''], JArr [JNum (Fin 3), JStr ''b''],
                    JArr [JNum (Fin 4), JStr ''c''], JArr [JNum (Fin 5), JStr ''d'']]"

definition demoInsert :: op where
  "demoInsert =
     \<lparr> rawSql = ''insert into test(col1, col2) values (?,?)'',
       sql = ''insert into test(col1, col2) values (?,?)'',
       paramRefs = [RefIndex 0, RefIndex 1], paramTypes = ''??'', bindStyles = {CHR ''?''},
       opcode = E, dflt = JNull, paramVals = demoRows, paramShape = ShArrayArray,
       isMulti = True \<rparr>"

text \<open>Three Stages: one query, an insert and a query, and one whose second statement fails.\<close>

definition demoSelectInt :: op where
  "demoSelectInt =
     \<lparr> rawSql = ''select 1+1'', sql = ''select 1+1'', paramRefs = [], paramTypes = [],
       bindStyles = {}, opcode = QI, dflt = JUndefined, paramVals = JNull,
       paramShape = ShFalse, isMulti = False \<rparr>"

definition demoGarbage :: op where
  "demoGarbage =
     \<lparr> rawSql = ''this is garbage'', sql = ''this is garbage'', paramRefs = [],
       paramTypes = [], bindStyles = {}, opcode = E, dflt = JNull, paramVals = JNull,
       paramShape = ShFalse, isMulti = False \<rparr>"

definition demoStageOne :: stage where
  "demoStageOne = \<lparr> stCfg = demoCfg, stOps = [demoSelectInt], finaleComplete = False \<rparr>"


definition demoStageFail :: stage where
  "demoStageFail =
     \<lparr> stCfg = demoCfg, stOps = [demoInsert, demoGarbage, demoSelectInt],
       finaleComplete = False \<rparr>"

text \<open>A Stage whose one Operation is a \<^verbatim>\<open>query\<close> of a statement that returns no rows.\<close>

definition demoStageLeak :: stage where
  "demoStageLeak =
     \<lparr> stCfg = demoCfg,
       stOps = [\<lparr> rawSql = ''insert into test(col1) values (?)'',
                  sql = ''insert into test(col1) values (?)'',
                  paramRefs = [RefIndex 0], paramTypes = ''?'', bindStyles = {CHR ''?''},
                  opcode = Q, dflt = JNull, paramVals = JArr [JNum (Fin 1)],
                  paramShape = ShArray, isMulti = False \<rparr>],
       finaleComplete = False \<rparr>"

definition demoFailPre :: "event list" where
  "demoFailPre =
     [EvCreatePool demoCfg (Inr 0), EvGetConnection 0 (Inr 7),
      EvExecute 7 ''SET autocommit=0'' [] (Inr (RHeader 0)), EvBegin 7 None,
      EvExecute 7 ''insert into test(col1, col2) values (?,?)'' [JNum (Fin 2), JStr ''a''] (Inr (RHeader 1)),
      EvExecute 7 ''insert into test(col1, col2) values (?,?)'' [JNum (Fin 3), JStr ''b''] (Inr (RHeader 1)),
      EvExecute 7 ''insert into test(col1, col2) values (?,?)'' [JNum (Fin 4), JStr ''c''] (Inr (RHeader 1)),
      EvExecute 7 ''insert into test(col1, col2) values (?,?)'' [JNum (Fin 5), JStr ''d''] (Inr (RHeader 1))]"

declare decimal.simps [simp del]
declare parseLoop.simps [simp del]
declare makeArgsLoop.simps [simp del]
declare doNextExecE.simps [simp del]
declare doNextExecQ.simps [simp del]
declare fillInResults.simps [simp del]

section \<open>The placeholder parser\<close>

lemma mark_not_word [simp]:
  "\<not> isWordChar (CHR ''?'')" "\<not> isWordChar (CHR '':'')" "\<not> isWordChar (CHR ''$'')"
  "\<not> isDigit (CHR ''?'')" "\<not> isDigit (CHR '':'')" "\<not> isDigit (CHR ''$'')"
  by (simp_all add: isWordChar_def isDigit_def)

lemma scan_tokens_marked:
  "t \<in> set (tokens (scan s)) \<Longrightarrow> \<exists>c r. t = c # r \<and> isMark c"
  by (induction s rule: scan.induct) (auto simp: isMark_def split: if_splits)

lemma parseLoop_marked:
  "\<forall>t \<in> set ms. \<exists>c r. t = c # r \<and> isMark c \<Longrightarrow>
   parseLoop ms i refs types styles =
     Inr (refs @ map (\<lambda>j. refOf j (ms ! j)) [i..<length ms],
          types @ map hd (drop i ms),
          styles \<union> hd ` set (drop i ms))"
proof (induction ms i refs types styles rule: parseLoop.induct)
  case (1 ms i refs types styles)
  show ?case
  proof (cases "i < length ms")
    case False
    then show ?thesis by (subst parseLoop.simps) simp
  next
    case True
    then have "ms ! i \<in> set ms" by simp
    with "1.prems" obtain c r where cr: "ms ! i = c # r" and m: "isMark c" by blast
    have up: "[i..<length ms] = i # [Suc i..<length ms]" using True by (simp add: upt_conv_Cons)
    have dr: "drop i ms = (c # r) # drop (Suc i) ms" using True cr by (metis Cons_nth_drop_Suc)
    from m consider "c = CHR '':''" | "c = CHR ''$''" | "c = CHR ''?''" by (auto simp: isMark_def)
    then show ?thesis
    proof cases
      case 1
      with "1.IH"(1)[OF True cr 1 "1.prems"] True cr show ?thesis
        by (subst parseLoop.simps) (simp add: up dr refOf_def)
    next
      case 2
      with "1.IH"(2)[OF True cr _ 2 "1.prems"] True cr show ?thesis
        by (subst parseLoop.simps) (simp add: up dr refOf_def)
    next
      case 3
      with "1.IH"(3)[OF True cr _ _ 3 "1.prems"] True cr show ?thesis
        by (subst parseLoop.simps) (simp add: up dr refOf_def)
    qed
  qed
qed

lemma parseSql_char:
  "parseSql s oc dv params sh =
     Inr \<lparr> rawSql = s, sql = regexReplace s,
           paramRefs = map (\<lambda>j. refOf j (regexMatch s ! j)) [0..<length (regexMatch s)],
           paramTypes = map hd (regexMatch s),
           bindStyles = hd ` set (regexMatch s), opcode = oc, dflt = dv,
           paramVals = params, paramShape = sh,
           isMulti = (sh = ShArrayArray \<or> sh = ShArrayObject) \<rparr>"
  unfolding parseSql_def
  by (subst parseLoop_marked) (auto simp: regexMatch_def dest: scan_tokens_marked)

lemma question_is_token:
  "CHR ''?'' \<in> set s \<Longrightarrow> ''?'' \<in> set (tokens (scan s))"
proof (induction s rule: scan.induct)
  case 1
  then show ?case by simp
next
  case (2 c cs)
  have a: "CHR ''?'' \<in> set (dropWhile isWordChar cs)" if "CHR ''?'' \<in> set cs"
    using that by (metis mark_not_word(1) set_dropWhileD takeWhile_dropWhile_id set_append UnE set_takeWhileD)
  have b: "CHR ''?'' \<in> set (dropWhile isDigit cs)" if "CHR ''?'' \<in> set cs"
    using that by (metis mark_not_word(4) takeWhile_dropWhile_id set_append UnE set_takeWhileD)
  from 2 a b show ?case by (auto split: if_splits)
qed

lemma colon_is_token:
  "isWordChar c \<Longrightarrow> \<exists>name. (CHR '':'' # name) \<in> set (tokens (scan (u @ CHR '':'' # c # v)))"
proof (induction "u @ CHR '':'' # c # v" arbitrary: u rule: scan.induct)
  case 1
  then show ?case by simp
next
  case (2 x xs)
  note eq = \<open>x # xs = u @ CHR '':'' # c # v\<close>
  show ?case
  proof (cases u)
    case Nil
    with 2 show ?thesis by auto
  next
    case (Cons y u')
    with eq have xs: "xs = u' @ CHR '':'' # c # v" by auto
    have dw: "dropWhile isWordChar xs = dropWhile isWordChar u' @ CHR '':'' # c # v"
      unfolding xs by (simp add: dropWhile_append3)
    have dd: "dropWhile isDigit xs = dropWhile isDigit u' @ CHR '':'' # c # v"
      unfolding xs by (simp add: dropWhile_append3)
    have "\<exists>name. (CHR '':'' # name) \<in> set (tokens (scan (x # xs)))"
    proof (cases "x = CHR '':'' \<and> takeWhile isWordChar xs \<noteq> []")
      case True
      then show ?thesis by auto
    next
      case nc: False
      show ?thesis
      proof (cases "x = CHR ''?''")
        case True
        from "2.hyps"(2)[OF nc True xs "2.prems"] obtain name
          where "CHR '':'' # name \<in> set (tokens (scan xs))" unfolding xs by blast
        moreover have "scan (x # xs) = Tok [x] # scan xs" using True by simp
        ultimately show ?thesis by auto
      next
        case nq: False
        show ?thesis
        proof (cases "x = CHR ''$'' \<and> takeWhile isDigit xs \<noteq> []")
          case True
          from "2.hyps"(3)[OF nc nq True dd "2.prems"] obtain name
            where "CHR '':'' # name \<in> set (tokens (scan (dropWhile isDigit xs)))" unfolding dd by blast
          moreover have "scan (x # xs) = Tok (x # takeWhile isDigit xs) # scan (dropWhile isDigit xs)"
            using True by simp
          ultimately show ?thesis by auto
        next
          case False
          from "2.hyps"(4)[OF nc nq False xs "2.prems"] obtain name
            where "CHR '':'' # name \<in> set (tokens (scan xs))" unfolding xs by blast
          moreover have "scan (x # xs) = Lit x # scan xs" using False nc nq by simp
          ultimately show ?thesis by auto
        qed
      qed
    qed
    then show ?thesis unfolding eq .
  qed
qed















section \<open>Operation construction\<close>

text \<open>
  Claim C6. When the SQL text has a \<^verbatim>\<open>?\<close> somewhere and a colon followed by a
  character of \<^verbatim>\<open>[a-zA-Z0-9_]\<close> somewhere, \<^verbatim>\<open>doAction\<close> throws the error that names
  the two placeholder styles, whatever the opcode, the parameters and the default are; so
  does each of the five Stage methods, and the Stage gets no Operation. These functions
  take neither a pool nor a connection nor the world: the error comes before any access
  to the database.
\<close>

theorem mixed_placeholders_rejected:
  assumes "CHR ''?'' \<in> set s" and "s = u @ CHR '':'' # c # v" and "isWordChar c"
  shows "doAction oc (JStr s) params dv = Inl (Error (mixedMessage s))
       \<and> execute st (JStr s) params = Inl (Error (mixedMessage s))
       \<and> query st (JStr s) params = Inl (Error (mixedMessage s))
       \<and> queryInt st (JStr s) params dv = Inl (Error (mixedMessage s))
       \<and> queryFloat st (JStr s) params dv = Inl (Error (mixedMessage s))
       \<and> queryString st (JStr s) params dv = Inl (Error (mixedMessage s))"
proof -
  have q: "''?'' \<in> set (regexMatch s)" using assms(1) by (simp add: regexMatch_def question_is_token)
  from colon_is_token[OF assms(3), of u v] obtain name
    where n: "CHR '':'' # name \<in> set (regexMatch s)" by (auto simp: regexMatch_def assms(2))
  have "CHR ''?'' \<in> hd ` set (regexMatch s)" using q by force
  moreover have "CHR '':'' \<in> hd ` set (regexMatch s)" using n by force
  moreover have "s \<noteq> []" using assms(1) by auto
  ultimately have "doAction oc' (JStr s) params dv' = Inl (Error (mixedMessage s))" for oc' dv'
    by (simp add: doAction_def parseSql_char Let_def)
  then show ?thesis
    by (simp add: execute_def query_def queryInt_def queryFloat_def queryString_def pushOp_def)
qed

theorem mixed_placeholders_rejected_witness:
  "execute (newStage demoCfg) (JStr ''insert into t values (?, :a)'') (JArr [JNum (Fin 1)])
     = Inl (Error (mixedMessage ''insert into t values (?, :a)''))"
proof -
  have 1: "CHR ''?'' \<in> set ''insert into t values (?, :a)''" by simp
  have 2: "''insert into t values (?, :a)'' = ''insert into t values (?, '' @ CHR '':'' # CHR ''a'' # '')''" by simp
  have 3: "isWordChar (CHR ''a'')" by (simp add: isWordChar_def)
  from mixed_placeholders_rejected[OF 1 2 3] show ?thesis by simp
qed


section \<open>Binding\<close>

lemma makeArgsLoop_char:
  "\<forall>j < length refs. isMark (types ! j) \<Longrightarrow>
   makeArgsLoop refs types ep prior i rv =
     Inr (rv @ map (argOf refs types ep prior) [i..<length refs])"
proof (induction refs types ep prior i rv rule: makeArgsLoop.induct)
  case (1 refs types ep prior i rv)
  show ?case
  proof (cases "i < length refs")
    case False
    then show ?thesis by (subst makeArgsLoop.simps) simp
  next
    case True
    then have m: "isMark (types ! i)" using "1.prems" by blast
    have up: "[i..<length refs] = i # [Suc i..<length refs]" using True by (simp add: upt_conv_Cons)
    from m consider "types ! i = CHR '':''" | "types ! i = CHR ''$''" | "types ! i = CHR ''?''"
      by (auto simp: isMark_def)
    then show ?thesis
    proof cases
      case 1
      with "1.IH"(1)[OF True refl refl 1 "1.prems"] True show ?thesis
        by (subst makeArgsLoop.simps) (simp add: up argOf_def Let_def)
    next
      case 2
      with "1.IH"(2)[OF True refl refl _ 2 "1.prems"] True show ?thesis
        by (subst makeArgsLoop.simps) (simp add: up argOf_def Let_def)
    next
      case 3
      with "1.IH"(3)[OF True refl refl _ _ 3 "1.prems"] True show ?thesis
        by (subst makeArgsLoop.simps) (simp add: up argOf_def Let_def)
    qed
  qed
qed

lemma parseSql_types_marked:
  assumes "parseSql s oc dv params sh = Inr p"
  shows "length (paramRefs p) = length (paramTypes p)"
    and "\<forall>j < length (paramRefs p). isMark (paramTypes p ! j)"
proof -
  from assms parseSql_char[of s oc dv params sh]
  have p: "paramRefs p = map (\<lambda>j. refOf j (regexMatch s ! j)) [0..<length (regexMatch s)]"
    "paramTypes p = map hd (regexMatch s)" by auto
  show "length (paramRefs p) = length (paramTypes p)" by (simp add: p)
  show "\<forall>j < length (paramRefs p). isMark (paramTypes p ! j)"
  proof (intro allI impI)
    fix j assume "j < length (paramRefs p)"
    then have j: "j < length (regexMatch s)" by (simp add: p)
    then have "regexMatch s ! j \<in> set (tokens (scan s))" by (simp add: regexMatch_def)
    from scan_tokens_marked[OF this] j show "isMark (paramTypes p ! j)" by (auto simp: p)
  qed
qed

lemma makeArgs_built:
  assumes "parseSql s oc dv params sh = Inr p"
  shows "makeArgs (paramRefs p) (paramTypes p) ep prior =
           Inr (map (argOf (paramRefs p) (paramTypes p) (if isNullish ep then JArr [] else ep) prior)
                  [0..<length (paramRefs p)])"
  using parseSql_types_marked[OF assms]
  by (simp add: makeArgs_def makeArgsLoop_char)

text \<open>
  Claim C10. In a statement whose match list has a \<^verbatim>\<open>?\<close> at index \<open>i\<close>, counted
  among all the matches (those starting with a dollar sign or a colon too),
  \<^verbatim>\<open>makeArgs\<close> binds for it the element \<open>i\<close> of the parameter array, or
  \<^verbatim>\<open>undefined\<close> when the array is shorter. In \<^verbatim>\<open>select $0, ?\<close> the \<^verbatim>\<open>?\<close> is the first
  of its kind and the second match: it receives the second element.
\<close>

theorem positional_index_counts_all_tokens:
  assumes "parseSql s oc dv params sh = Inr p"
    and "i < length (regexMatch s)"
    and "regexMatch s ! i = ''?''"
  shows "\<exists>args. makeArgs (paramRefs p) (paramTypes p) (JArr xs) prior = Inr args
           \<and> length args = length (regexMatch s)
           \<and> args ! i = (if i < length xs then xs ! i else JUndefined)"
proof -
  from assms(1) parseSql_char[of s oc dv params sh]
  have p: "paramRefs p = map (\<lambda>j. refOf j (regexMatch s ! j)) [0..<length (regexMatch s)]"
    "paramTypes p = map hd (regexMatch s)" by auto
  have a: "argOf (paramRefs p) (paramTypes p) (JArr xs) prior i =
          (if i < length xs then xs ! i else JUndefined)"
    using assms(2,3) by (simp add: argOf_def p refOf_def)
  have len: "length (paramRefs p) = length (regexMatch s)" by (simp add: p)
  have mk: "makeArgs (paramRefs p) (paramTypes p) (JArr xs) prior =
          Inr (map (argOf (paramRefs p) (paramTypes p) (JArr xs) prior) [0..<length (paramRefs p)])"
    using makeArgs_built[OF assms(1), of "JArr xs" prior] by simp
  have "map (argOf (paramRefs p) (paramTypes p) (JArr xs) prior) [0..<length (paramRefs p)] ! i =
          (if i < length xs then xs ! i else JUndefined)"
    using assms(2) a len by simp
  with mk len show ?thesis by simp
qed

theorem positional_index_counts_all_tokens_witness:
  "regexMatch ''select $0, ?'' = [''$0'', ''?'']
   \<and> (\<exists>args. makeArgs [RefIndex 0, RefIndex 1] ''$?'' (JArr [JNum (Fin 10), JNum (Fin 20)])
                 [JNum (Fin 7)] = Inr args
          \<and> length args = 2 \<and> args ! 1 = JNum (Fin 20))"
proof -
  have m: "regexMatch ''select $0, ?'' = [''$0'', ''?'']" by code_simp
  have p: "parseSql ''select $0, ?'' E JNull (JArr [JNum (Fin 10), JNum (Fin 20)]) ShArray =
        Inr \<lparr> rawSql = ''select $0, ?'', sql = ''select ?, ?'',
           paramRefs = [RefIndex 0, RefIndex 1], paramTypes = ''$?'',
           bindStyles = {CHR ''$'', CHR ''?''}, opcode = E, dflt = JNull,
           paramVals = JArr [JNum (Fin 10), JNum (Fin 20)], paramShape = ShArray,
           isMulti = False \<rparr>" by code_simp
  show ?thesis
    using positional_index_counts_all_tokens[OF p, of 1 "[JNum (Fin 10), JNum (Fin 20)]" "[JNum (Fin 7)]"] m
    by (simp add: numeral_2_eq_2)
qed

section \<open>Guards of a finalization\<close>

lemma getPool_closing:
  "getPool b d pf dbcfg w = (r, pf', w', tr) \<Longrightarrow> closing pf' = closing pf"
  by (auto simp: getPool_def Let_def split: if_splits option.splits prod.splits sum.splits)

lemma runFinale_closing:
  "runFinale b d pf dbcfg bt opers w = (r, pf', w', tr) \<Longrightarrow> closing pf' = closing pf"
  unfolding runFinale_def Let_def
  by (auto split: prod.splits sum.splits outcome.splits dest: getPool_closing)

lemma doFinale_closing:
  "doFinale b d pf st bt cb w = (r, pf', st', w', tr) \<Longrightarrow> closing pf' = closing pf"
  unfolding doFinale_def
  by (auto split: if_splits prod.splits dest: runFinale_closing)

lemma doCurtains_closing: "doCurtains d pf w = (pf', w', tr) \<Longrightarrow> closing pf'"
  by (auto simp: doCurtains_def split: prod.splits)

lemma reach_closing:
  "reach b d s0 s \<Longrightarrow> closing (fst s0) \<Longrightarrow> closing (fst s)"
proof (induction rule: reach.induct)
  case reach_start
  then show ?case by simp
next
  case (reach_finale pf w st cb autocommit r pf' st' w' tr)
  then show ?case by (auto simp: finale_def dest: doFinale_closing)
next
  case (reach_curtains pf w pf' w' tr)
  then show ?case by (auto dest: doCurtains_closing)
qed

lemma doFinale_when_closing:
  "closing pf \<Longrightarrow> doFinale b d pf st bt cb w = (callCb cb closingError, pf, st, w, [])"
  by (simp add: doFinale_def isClosing_def)

text \<open>
  Claim C8. Once \<^verbatim>\<open>doCurtains\<close> has run, in every state that finalizations and
  shutdowns lead to from there, the flag is still set, and a finalization of any Stage
  makes no call to the driver, leaves the registry, the Stage and the world as they are,
  and ends in the first guard: a callback that is a function receives the error
  \<^verbatim>\<open>Databases are closing down.\<close> at once.
\<close>

theorem curtains_rejects_finale:
  assumes "doCurtains d pf0 w0 = (pf1, w1, tr1)"
    and "reach b d (pf1, w1) (pf, w)"
  shows "isClosing pf
    \<and> finale b d pf st cb autocommit w = (callCb cb closingError, pf, st, w, [])
    \<and> finale b d pf st Fn autocommit w = (Delivered (Some closingError) JUndefined, pf, st, w, [])"
proof -
  have "closing pf1" using assms(1) by (rule doCurtains_closing)
  with assms(2) have c: "closing pf" using reach_closing by fastforce
  show ?thesis using c by (simp add: finale_def doFinale_when_closing isClosing_def)
qed

theorem curtains_rejects_finale_witness:
  "finale demoBuiltins demoDriver \<lparr> pools = [], closing = True \<rparr> (newStage demoCfg) Fn
     JUndefined (0::nat) =
   (Delivered (Some closingError) JUndefined, \<lparr> pools = [], closing = True \<rparr>,
    newStage demoCfg, 0, [])"
proof -
  have 1: "doCurtains demoDriver demoPf (0::nat) = (\<lparr> pools = [], closing = True \<rparr>, 0, [])"
    by (simp add: doCurtains_def demoPf_def forInOrder_def)
  have 2: "reach demoBuiltins demoDriver (\<lparr> pools = [], closing = True \<rparr>, 0::nat)
             (\<lparr> pools = [], closing = True \<rparr>, 0)"
    by (rule reach_start)
  from curtains_rejects_finale[OF 1 2] show ?thesis by simp
qed

lemma stage_sealed_cfg:
  "stageOf b d st \<Longrightarrow> finaleComplete st \<Longrightarrow> truthy (stCfg st)"
proof (induction rule: stageOf.induct)
  case (stage_new connectionInfo)
  then show ?case by (simp add: newStage_def)
next
  case (stage_push st oc sqlv params dv st')
  then show ?case by (auto simp: pushOp_def split: sum.splits)
next
  case (stage_finale st pf cb autocommit w r pf' st' w' tr)
  then show ?case
    by (auto simp: finale_def doFinale_def split: if_splits prod.splits)
qed

lemma demo_first_finale:
  "finale demoBuiltins demoDriver demoPf (newStage demoCfg) Fn JUndefined (0::nat) =
     (Delivered None (JArr []), \<lparr> pools = [(''{}'', 0)], closing = False \<rparr>, demoSealed, 1,
      [EvCreatePool demoCfg (Inr 0), EvGetConnection 0 (Inr 7),
       EvExecute 7 ''SET autocommit=0'' [] (Inr (RHeader 0)), EvBegin 7 None,
       EvCommit 7 None, EvRollback 7 (Some (DriverError ''rollback failed'')), EvRelease 7])"
  by code_simp

lemma demo_sealed_stage: "stageOf demoBuiltins demoDriver demoSealed"
  using stage_finale[OF stage_new demo_first_finale] .

text \<open>
  Claim C7, as stated, fails when shutdown has been signaled in between: the guard on
  the closing flag comes first, and the second finalization of the sealed Stage receives
  \<^verbatim>\<open>Databases are closing down.\<close>, not the error about the finale already had.
\<close>

theorem second_finale_after_curtains_counterexample:
  "stageOf demoBuiltins demoDriver demoSealed \<and> finaleComplete demoSealed
   \<and> doCurtains demoDriver \<lparr> pools = [(''{}'', 0)], closing = False \<rparr> (1::nat) =
       (\<lparr> pools = [(''{}'', 0)], closing = True \<rparr>, 1, [EvPoolEnd 0])
   \<and> finale demoBuiltins demoDriver \<lparr> pools = [(''{}'', 0)], closing = True \<rparr> demoSealed Fn
       JUndefined (1::nat) =
       (Delivered (Some closingError) JUndefined, \<lparr> pools = [(''{}'', 0)], closing = True \<rparr>,
        demoSealed, 1, [])
   \<and> closingError \<noteq> alreadyError"
proof -
  have "doCurtains demoDriver \<lparr> pools = [(''{}'', 0)], closing = False \<rparr> (1::nat) =
       (\<lparr> pools = [(''{}'', 0)], closing = True \<rparr>, 1, [EvPoolEnd 0])"
    by code_simp
  moreover have "finale demoBuiltins demoDriver \<lparr> pools = [(''{}'', 0)], closing = True \<rparr>
       demoSealed Fn JUndefined (1::nat) =
       (Delivered (Some closingError) JUndefined, \<lparr> pools = [(''{}'', 0)], closing = True \<rparr>,
        demoSealed, 1, [])"
    by (simp add: finale_def doFinale_def isClosing_def)
  moreover have "closingError \<noteq> alreadyError" by (simp add: closingError_def alreadyError_def)
  moreover have "finaleComplete demoSealed" by (simp add: demoSealed_def)
  ultimately show ?thesis using demo_sealed_stage by simp
qed

text \<open>
  Claim C7, amended. On a Stage whose finalization has begun (\<open>finaleComplete\<close> is
  set), a further call of \<^verbatim>\<open>finale\<close> with a callback makes no call to the driver and
  leaves the registry, the world and the Stage, still sealed, as they are; the callback
  receives at once the error about the finale already had, unless shutdown has been
  signaled, in which case it receives the error about the databases closing down. And a
  call of \<^verbatim>\<open>finale\<close> with a callback that passes the guards (no shutdown, a
  configuration, not yet sealed) seals the Stage: it is finalized once and never again.
\<close>

theorem second_finale_rejected:
  assumes "stageOf b d st"
  shows "(finaleComplete st \<longrightarrow>
            finale b d pf st Fn autocommit w =
              (Delivered (Some (if isClosing pf then closingError else alreadyError)) JUndefined,
               pf, st, w, []))
       \<and> (\<not> finaleComplete st \<and> \<not> isClosing pf \<and> truthy (stCfg st) \<longrightarrow>
            finaleComplete (fst (snd (snd (finale b d pf st Fn autocommit w)))))"
proof -
  have 1: "finale b d pf st Fn autocommit w =
              (Delivered (Some (if isClosing pf then closingError else alreadyError)) JUndefined,
               pf, st, w, [])" if "finaleComplete st"
    using stage_sealed_cfg[OF assms that] that by (simp add: finale_def doFinale_def)
  have 2: "finaleComplete (fst (snd (snd (finale b d pf st Fn autocommit w))))"
    if "\<not> finaleComplete st \<and> \<not> isClosing pf \<and> truthy (stCfg st)"
    using that by (simp add: finale_def doFinale_def split: prod.splits)
  from 1 2 show ?thesis by blast
qed

theorem second_finale_rejected_witness:
  "finale demoBuiltins demoDriver demoPf demoSealed Fn JUndefined (1::nat) =
     (Delivered (Some alreadyError) JUndefined, demoPf, demoSealed, 1, [])
   \<and> finaleComplete
       (fst (snd (snd (finale demoBuiltins demoDriver demoPf (newStage demoCfg) Fn JUndefined
                         (0::nat)))))"
proof -
  have s: "finaleComplete demoSealed" by (simp add: demoSealed_def)
  have n: "\<not> finaleComplete (newStage demoCfg) \<and> \<not> isClosing demoPf
             \<and> truthy (stCfg (newStage demoCfg))"
    by (simp add: newStage_def isClosing_def demoPf_def demoCfg_def)
  from second_finale_rejected[OF demo_sealed_stage,
      where pf = demoPf and autocommit = JUndefined and w = 1]
    second_finale_rejected[OF stage_new[of demoBuiltins demoDriver demoCfg],
      where pf = demoPf and autocommit = JUndefined and w = 0] s n
  show ?thesis by (simp add: isClosing_def demoPf_def)
qed

text \<open>
  Claim C9 does not hold of the code. With a callback that is not a function, every
  guard of \<^verbatim>\<open>doFinale\<close>, the one that builds the error about the forgotten callback
  included, hands its error to \<^verbatim>\<open>cb(...)\<close>; calling \<open>cb\<close> throws a TypeError out of
  \<^verbatim>\<open>finale\<close>, and the error about the forgotten callback reaches nobody.
\<close>

theorem missing_callback_throws:
  "finale b d pf st (NotFn v) autocommit w =
     (Thrown (TypeError ''cb is not a function''), pf, st, w, [])
   \<and> Thrown (TypeError ''cb is not a function'') \<noteq> Thrown forgotError
   \<and> Thrown (TypeError ''cb is not a function'') \<noteq> Delivered (Some forgotError) rv"
  by (simp add: finale_def doFinale_def forgotError_def)

section \<open>The result coercer\<close>









section \<open>Running one Operation: the statements executed\<close>










section \<open>The results of a finalization\<close>







lemma demo_stages_built:
  "queryInt (newStage demoCfg) (JStr ''select 1+1'') JUndefined JUndefined = Inr demoStageOne"
  "execute (newStage demoCfg) (JStr ''this is garbage'') JUndefined
     = Inr \<lparr> stCfg = demoCfg, stOps = [demoGarbage], finaleComplete = False \<rparr>"
  by code_simp+






section \<open>Failure, rollback and release\<close>

lemma evOkOn_props: "evOkOn c ev \<Longrightarrow> \<not> evFailed ev \<and> evOn c ev \<and> ev \<noteq> EvBegin c None"
  by (cases "(c, ev)" rule: evOkOn.cases) auto

lemma stmtShape_Nil: "stmtShape c eo []"
  by (simp add: stmtShape_def)

lemma stmtShape_fail: "stmtShape c (Some e) [EvExecute c s a (Inl e)]"
  by (simp add: stmtShape_def)

lemma stmtShape_append:
  "list_all (evOkOn c) t1 \<Longrightarrow> stmtShape c eo t2 \<Longrightarrow> stmtShape c eo (t1 @ t2)"
  unfolding stmtShape_def
  by (metis append.assoc list_all_append)

lemma stmtShape_Cons:
  "evOkOn c ev \<Longrightarrow> stmtShape c eo tr \<Longrightarrow> stmtShape c eo (ev # tr)"
  using stmtShape_append[of c "[ev]" eo tr] by simp

lemma stmtShape_None: "stmtShape c None tr \<Longrightarrow> list_all (evOkOn c) tr"
  by (simp add: stmtShape_def)

lemma stmtShape_on: "stmtShape c eo tr \<Longrightarrow> list_all (evOn c) tr"
  unfolding stmtShape_def by (auto simp: list_all_iff dest: evOkOn_props)

lemma doNextExecE_shape:
  "doNextExecE d c p prior pvs i n w = (out, w', tr) \<Longrightarrow> stmtShape c (errOf out) tr"
proof (induction d c p prior pvs i n w arbitrary: out w' tr rule: doNextExecE.induct)
  case (1 d c p prior pvs i n w)
  note run = "1.prems"
  show ?case
  proof (cases "i \<ge> length pvs")
    case True
    with run show ?thesis by (subst (asm) doNextExecE.simps) (auto simp: stmtShape_Nil)
  next
    case False
    show ?thesis
    proof (cases "makeArgs (paramRefs p) (paramTypes p) (pvs ! i) prior")
      case (Inl e)
      with run False show ?thesis by (subst (asm) doNextExecE.simps) (auto simp: stmtShape_Nil)
    next
      case (Inr args)
      obtain resp w1 where ex: "drvExecute d c (sql p) args w = (resp, w1)" by force
      show ?thesis
      proof (cases resp)
        case (Inl err)
        with run False Inr ex show ?thesis
          by (subst (asm) doNextExecE.simps) (auto simp: stmtShape_fail)
      next
        case r: (Inr r)
        obtain out2 w2 tr2 where rec:
          "doNextExecE d c p prior pvs (i + 1) (n + affectedRows r) w1 = (out2, w2, tr2)"
          by (metis prod_cases3)
        from run False Inr ex r rec have res: "out = out2"
          "tr = EvExecute c (sql p) args (Inr r) # tr2"
          by (subst (asm) doNextExecE.simps; simp)+
        have ex': "(Inr r, w1) = drvExecute d c (sql p) args w" using ex r by simp
        from "1.IH"[OF False Inr ex' refl rec] show ?thesis
          unfolding res by (intro stmtShape_Cons) auto
      qed
    qed
  qed
qed

lemma doNextExecQ_shape:
  "doNextExecQ b d c p prior pvs i acc w = (out, w', tr) \<Longrightarrow> stmtShape c (errOf out) tr"
proof (induction b d c p prior pvs i acc w arbitrary: out w' tr rule: doNextExecQ.induct)
  case (1 b d c p prior pvs i acc w)
  note run = "1.prems"
  show ?case
  proof (cases "i \<ge> length pvs")
    case True
    with run show ?thesis by (subst (asm) doNextExecQ.simps) (auto simp: stmtShape_Nil)
  next
    case False
    show ?thesis
    proof (cases "makeArgs (paramRefs p) (paramTypes p) (pvs ! i) prior")
      case (Inl e)
      with run False show ?thesis by (subst (asm) doNextExecQ.simps) (auto simp: stmtShape_Nil)
    next
      case (Inr args)
      obtain resp w1 where ex: "drvExecute d c (sql p) args w = (resp, w1)" by force
      show ?thesis
      proof (cases resp)
        case (Inl err)
        with run False Inr ex show ?thesis
          by (subst (asm) doNextExecQ.simps) (auto simp: stmtShape_fail)
      next
        case r: (Inr r)
        show ?thesis
        proof (cases "formatResult b p r")
          case (Inl e)
          with run False Inr ex r show ?thesis
            by (subst (asm) doNextExecQ.simps) (auto simp: stmtShape_def)
        next
          case v: (Inr v)
          obtain out2 w2 tr2 where rec:
            "doNextExecQ b d c p prior pvs (i + 1) (acc @ [v]) w1 = (out2, w2, tr2)"
            by (metis prod_cases3)
          from run False Inr ex r v rec have res: "out = out2"
            "tr = EvExecute c (sql p) args (Inr r) # tr2"
            by (subst (asm) doNextExecQ.simps; simp)+
          have ex': "(Inr r, w1) = drvExecute d c (sql p) args w" using ex r by simp
          from "1.IH"[OF False Inr ex' refl v rec] show ?thesis
            unfolding res by (intro stmtShape_Cons) auto
        qed
      qed
    qed
  qed
qed

lemma nextFn_shape:
  "nextFn b d c p results w = (out, w', tr) \<Longrightarrow> stmtShape c (errOf out) tr"
  by (auto simp: nextFn_def doExecute_def doQuery_def split: if_splits
      dest: doNextExecE_shape doNextExecQ_shape)

lemma fill_shape:
  "fillInResults b d c opers rs0 w = (out, rs, w', tr) \<Longrightarrow> stmtShape c (errOf out) tr"
proof (induction b d c opers rs0 w arbitrary: out rs w' tr rule: fillInResults.induct)
  case (1 b d c opers results w)
  note run = "1.prems"
  show ?case
  proof (cases "length opers = length results \<or> length opers < length results")
    case True
    with run show ?thesis by (subst (asm) fillInResults.simps) (auto simp: stmtShape_Nil)
  next
    case False
    then have ne: "length opers \<noteq> length results" and nlt: "\<not> length opers < length results"
      by auto
    obtain out1 wa tra where nf: "nextFn b d c (opers ! length results) results w = (out1, wa, tra)"
      by (metis prod_cases3)
    note sh = nextFn_shape[OF nf]
    show ?thesis
    proof (cases out1)
      case (Ok result)
      obtain out2 rs2 wb trb where rec:
        "fillInResults b d c opers (results @ [result]) wa = (out2, rs2, wb, trb)"
        by (metis prod_cases4)
      from run ne nlt nf Ok rec have res: "out = out2" "tr = tra @ trb"
        by (subst (asm) fillInResults.simps; simp)+
      have nf': "(Ok result, wa, tra) = nextFn b d c (opers ! length results) results w"
        using nf Ok by simp
      from sh Ok have "list_all (evOkOn c) tra" by (simp add: stmtShape_None)
      with "1.IH"[OF ne nlt nf' refl refl rec] show ?thesis
        unfolding res by (rule stmtShape_append[rotated])
    next
      case (Err e)
      with run ne nlt nf sh show ?thesis by (subst (asm) fillInResults.simps) auto
    next
      case (Uncaught e)
      with run ne nlt nf sh show ?thesis by (subst (asm) fillInResults.simps) auto
    qed
  qed
qed

lemma finalize_conn:
  "finalize d sing started rs (Some c) err w = (r, w', tr) \<Longrightarrow>
     (\<exists>rv. r = Delivered err rv)
     \<and> (if started then \<exists>rb. tr = [EvRollback c rb, EvRelease c] else tr = [EvRelease c])"
  by (auto simp: finalize_def releaseConnection_def Let_def simp del: elemAt.simps
      split: if_splits prod.splits)

lemma finalize_none:
  "finalize d sing started rs None err w = (r, w', tr) \<Longrightarrow> (\<exists>rv. r = Delivered err rv) \<and> tr = []"
  by (auto simp: finalize_def Let_def simp del: elemAt.simps)

lemma failShape_nofail: "\<forall>ev \<in> set tr. \<not> evFailed ev \<Longrightarrow> failShape r tr"
  by (simp add: failShape_def)

lemma ok_not_failed: "list_all (evOkOn c) tr \<Longrightarrow> \<forall>ev \<in> set tr. \<not> evFailed ev"
  by (auto simp: list_all_iff dest: evOkOn_props)

lemma ok_no_begin: "list_all (evOkOn c) tr \<Longrightarrow> EvBegin c None \<notin> set tr"
  by (auto simp: list_all_iff dest: evOkOn_props)

lemma failShape_stmt:
  assumes P: "\<forall>ev \<in> set P. \<not> evFailed ev"
    and T: "stmtShape c (Some e) T"
    and B: "(EvBegin c None \<in> set P \<and> B = [EvRollback c rb, EvRelease c])
            \<or> (EvBegin c None \<notin> set P \<and> B = [EvRelease c])"
  shows "failShape (Delivered (Some e) rv) (P @ T @ B)"
proof -
  from T consider (ok) "list_all (evOkOn c) T"
    | (fail) tr0 s a where "T = tr0 @ [EvExecute c s a (Inl e)]" "list_all (evOkOn c) tr0"
    unfolding stmtShape_def by auto
  then show ?thesis
  proof cases
    case ok
    have "\<forall>ev \<in> set (P @ T @ B). \<not> evFailed ev"
      using P ok_not_failed[OF ok] B by auto
    then show ?thesis by (rule failShape_nofail)
  next
    case fail
    let ?A = "P @ tr0"
    have A: "\<forall>ev \<in> set ?A. \<not> evFailed ev" using P ok_not_failed[OF fail(2)] by auto
    have bg: "EvBegin c None \<in> set ?A \<longleftrightarrow> EvBegin c None \<in> set P"
      using ok_no_begin[OF fail(2)] by auto
    have tr: "P @ T @ B = ?A @ EvExecute c s a (Inl e) # B" by (simp add: fail(1))
    show ?thesis unfolding failShape_def tr
      using A B bg by blast
  qed
qed

lemma runOps_failShape:
  assumes P: "\<forall>ev \<in> set P. \<not> evFailed ev" and nb: "EvBegin c None \<notin> set P"
    and run: "runOps b d sing bt opers c w = (r, w', tr)"
  shows "failShape r (P @ tr)"
proof (cases bt)
  case True
  obtain bg w1 where b1: "drvBegin d c w = (bg, w1)" by force
  show ?thesis
  proof (cases bg)
    case (Some err)
    with run True b1 obtain r' w2 tr' where
      f: "finalize d sing False [] (Some c) (Some err) w1 = (r', w2, tr')"
      and tr: "tr = EvBegin c (Some err) # tr'"
      by (auto simp: runOps_def split: prod.splits)
    from finalize_conn[OF f] have "tr' = [EvRelease c]" by simp
    with tr P show ?thesis by (intro failShape_nofail) auto
  next
    case None
    obtain out rs w2 trf where fl: "fillInResults b d c opers [] w1 = (out, rs, w2, trf)"
      by (metis prod_cases4)
    note sh = fill_shape[OF fl]
    show ?thesis
    proof (cases out)
      case (Uncaught e)
      with run True b1 None fl have tr: "tr = EvBegin c None # trf"
        by (auto simp: runOps_def)
      from sh Uncaught have "list_all (evOkOn c) trf" by (simp add: stmtShape_None)
      from ok_not_failed[OF this] tr P show ?thesis by (intro failShape_nofail) auto
    next
      case (Err err)
      with run True b1 None fl obtain r' w3 tr' where
        f: "finalize d sing True rs (Some c) (Some err) w2 = (r', w3, tr')"
        and tr: "tr = EvBegin c None # trf @ tr'" and r: "r = r'"
        by (auto simp: runOps_def split: prod.splits)
      from finalize_conn[OF f] obtain rv rb where
        r': "r' = Delivered (Some err) rv" and t': "tr' = [EvRollback c rb, EvRelease c]" by auto
      have "failShape (Delivered (Some err) rv) ((P @ [EvBegin c None]) @ trf @ tr')"
        using P sh Err t' by (intro failShape_stmt[where rb = rb]) auto
      then show ?thesis by (simp add: tr r r')
    next
      case (Ok u)
      obtain cm w3 where c1: "drvCommit d c w2 = (cm, w3)" by force
      with run True b1 None fl Ok obtain r' w4 tr' where
        f: "finalize d sing True rs (Some c) cm w3 = (r', w4, tr')"
        and tr: "tr = EvBegin c None # trf @ EvCommit c cm # tr'"
        by (auto simp: runOps_def split: prod.splits)
      from finalize_conn[OF f] obtain rb where t': "tr' = [EvRollback c rb, EvRelease c]" by auto
      from sh Ok have "list_all (evOkOn c) trf" by (simp add: stmtShape_None)
      from ok_not_failed[OF this] tr t' P show ?thesis by (intro failShape_nofail) auto
    qed
  qed
next
  case False
  obtain out rs w2 trf where fl: "fillInResults b d c opers [] w = (out, rs, w2, trf)"
    by (metis prod_cases4)
  note sh = fill_shape[OF fl]
  show ?thesis
  proof (cases out)
    case (Uncaught e)
    with run False fl have tr: "tr = trf" by (auto simp: runOps_def)
    from sh Uncaught have "list_all (evOkOn c) trf" by (simp add: stmtShape_None)
    from ok_not_failed[OF this] tr P show ?thesis by (intro failShape_nofail) auto
  next
    case (Err err)
    with run False fl obtain r' w3 tr' where
      f: "finalize d sing False rs (Some c) (Some err) w2 = (r', w3, tr')"
      and tr: "tr = trf @ tr'" and r: "r = r'"
      by (auto simp: runOps_def split: prod.splits)
    from finalize_conn[OF f] obtain rv where
      r': "r' = Delivered (Some err) rv" and t': "tr' = [EvRelease c]" by auto
    have "failShape (Delivered (Some err) rv) (P @ trf @ tr')"
      using P sh Err t' nb by (intro failShape_stmt[where rb = None]) auto
    then show ?thesis by (simp add: tr r r')
  next
    case (Ok u)
    with run False fl obtain r' w4 tr' where
      f: "finalize d sing False rs (Some c) None w2 = (r', w4, tr')"
      and tr: "tr = trf @ tr'"
      by (auto simp: runOps_def split: prod.splits)
    from finalize_conn[OF f] have t': "tr' = [EvRelease c]" by auto
    from sh Ok have "list_all (evOkOn c) trf" by (simp add: stmtShape_None)
    from ok_not_failed[OF this] tr t' P show ?thesis by (intro failShape_nofail) auto
  qed
qed

lemma runOps_release:
  assumes run: "runOps b d sing bt opers c w = (Delivered err rv, w', tr)"
  shows "list_all (evOn c) tr \<and> tr \<noteq> [] \<and> last tr = EvRelease c"
proof -
  have fin: "list_all (evOn c) t \<and> t \<noteq> [] \<and> last t = EvRelease c"
    if "finalize d sing started rs (Some c) e0 w0 = (r0, w1, t)" for started rs e0 w0 r0 w1 t
    using finalize_conn[OF that] by (auto split: if_splits)
  have fo: "list_all (evOn c) t" if "fillInResults b d c opers [] w0 = (out, rs, w1, t)" for w0 out rs w1 t
    using fill_shape[OF that] by (rule stmtShape_on)
  from run show ?thesis
    unfolding runOps_def
    by (auto split: if_splits prod.splits option.splits outcome.splits dest!: fin fo)
qed

lemma getPool_trace:
  "getPool b d pf dbcfg w = (r, pf', w', t) \<Longrightarrow> list_all isCreatePool t"
  by (auto simp: getPool_def Let_def split: if_splits option.splits prod.splits sum.splits)

lemma createPool_props:
  "list_all isCreatePool t \<Longrightarrow> ev \<in> set t \<Longrightarrow>
     \<not> evFailed ev \<and> ev \<noteq> EvBegin c None \<and> ev \<noteq> EvGetConnection pool x \<and> ev \<noteq> EvRelease c"
  by (cases ev) (auto simp: list_all_iff)

lemma evOn_props: "list_all (evOn c) t \<Longrightarrow> EvGetConnection pool x \<notin> set t"
  by (auto simp: list_all_iff)

lemma doExecute_shape:
  "doExecute d c p prior w = (out, w', tr) \<Longrightarrow> stmtShape c (errOf out) tr"
  by (auto simp: doExecute_def dest: doNextExecE_shape)

lemma runFinale_failShape:
  assumes run: "runFinale b d pf dbcfg bt opers w = (r, pf', w', tr)"
  shows "failShape r tr"
proof -
  obtain gp pf1 w1 t1 where gpool: "getPool b d pf dbcfg w = (gp, pf1, w1, t1)"
    by (metis prod_cases4)
  note p1 = getPool_trace[OF gpool]
  have t1nf: "\<forall>ev \<in> set t1. \<not> evFailed ev" using createPool_props[OF p1] by blast
  have t1nb: "EvBegin c None \<notin> set t1" for c using createPool_props[OF p1] by blast
  show ?thesis
  proof (cases gp)
    case (Inl err)
    with run gpool obtain r' w2 t' where
      f: "finalize d (length opers = 1) False [] None (Some err) w1 = (r', w2, t')"
      and tr: "tr = t1 @ t'"
      by (auto simp: runFinale_def Let_def split: prod.splits)
    from finalize_none[OF f] tr t1nf show ?thesis by (intro failShape_nofail) auto
  next
    case (Inr pool)
    obtain gc w2 where gconn: "drvGetConnection d pool w1 = (gc, w2)" by force
    show ?thesis
    proof (cases gc)
      case (Inl err)
      with run gpool Inr gconn obtain r' w3 t' where
        f: "finalize d (length opers = 1) False [] None (Some err) w2 = (r', w3, t')"
        and tr: "tr = t1 @ [EvGetConnection pool (Inl err)] @ t'"
        by (auto simp: runFinale_def getConnection_def Let_def split: prod.splits)
      from finalize_none[OF f] tr t1nf show ?thesis by (intro failShape_nofail) auto
    next
      case c: (Inr c)
      let ?P = "t1 @ [EvGetConnection pool (Inr c)]"
      have Pnf: "\<forall>ev \<in> set ?P. \<not> evFailed ev" using t1nf by auto
      have Pnb: "EvBegin c None \<notin> set ?P" using t1nb by auto
      show ?thesis
      proof (cases "setCommitOp bt")
        case (Inl e)
        with run gpool Inr gconn c have "tr = ?P"
          by (auto simp: runFinale_def getConnection_def Let_def)
        with Pnf show ?thesis by (intro failShape_nofail) auto
      next
        case sc: (Inr sc)
        obtain out w3 t3 where ex: "doExecute d c sc [] w2 = (out, w3, t3)"
          by (metis prod_cases3)
        note sh = doExecute_shape[OF ex]
        show ?thesis
        proof (cases out)
          case (Uncaught e)
          with run gpool Inr gconn c sc ex have tr: "tr = ?P @ t3"
            by (auto simp: runFinale_def getConnection_def Let_def)
          from sh Uncaught have "list_all (evOkOn c) t3" by (simp add: stmtShape_None)
          from ok_not_failed[OF this] Pnf show ?thesis unfolding tr
            by (intro failShape_nofail) auto
        next
          case (Err err)
          with run gpool Inr gconn c sc ex obtain r' w4 t' where
            f: "finalize d (length opers = 1) False [] (Some c) (Some err) w3 = (r', w4, t')"
            and tr: "tr = ?P @ t3 @ t'" and r: "r = r'"
            by (auto simp: runFinale_def getConnection_def Let_def split: prod.splits)
          from finalize_conn[OF f] obtain rv where
            r': "r' = Delivered (Some err) rv" and t': "t' = [EvRelease c]" by auto
          have "failShape (Delivered (Some err) rv) (?P @ t3 @ t')"
            using Pnf sh Err t' Pnb by (intro failShape_stmt[where rb = None]) auto
          then show ?thesis by (simp add: tr r r')
        next
          case (Ok v)
          with run gpool Inr gconn c sc ex obtain w4 t' where
            ro: "runOps b d (length opers = 1) bt opers c w3 = (r, w4, t')"
            and tr: "tr = (?P @ t3) @ t'"
            by (auto simp: runFinale_def getConnection_def Let_def split: prod.splits)
          from sh Ok have ok3: "list_all (evOkOn c) t3" by (simp add: stmtShape_None)
          have nf: "\<forall>ev \<in> set (?P @ t3). \<not> evFailed ev"
            using Pnf ok_not_failed[OF ok3] by auto
          have nb: "EvBegin c None \<notin> set (?P @ t3)"
            using Pnb ok_no_begin[OF ok3] by auto
          from runOps_failShape[OF nf nb ro] show ?thesis unfolding tr .
        qed
      qed
    qed
  qed
qed

lemma runFinale_release:
  assumes run: "runFinale b d pf dbcfg bt opers w = (Delivered err rv, pf', w', tr)"
    and acq: "EvGetConnection pool (Inr c) \<in> set tr"
  shows "tr \<noteq> [] \<and> last tr = EvRelease c"
proof -
  obtain gp pf1 w1 t1 where gpool: "getPool b d pf dbcfg w = (gp, pf1, w1, t1)"
    by (metis prod_cases4)
  note p1 = getPool_trace[OF gpool]
  have t1n: "EvGetConnection pool (Inr c) \<notin> set t1" using createPool_props[OF p1] by blast
  show ?thesis
  proof (cases gp)
    case (Inl e0)
    with run gpool obtain r' w2 t' where
      f: "finalize d (length opers = 1) False [] None (Some e0) w1 = (r', w2, t')"
      and tr: "tr = t1 @ t'"
      by (auto simp: runFinale_def Let_def split: prod.splits)
    from finalize_none[OF f] tr t1n acq show ?thesis by auto
  next
    case (Inr pool')
    obtain gc w2 where gconn: "drvGetConnection d pool' w1 = (gc, w2)" by force
    show ?thesis
    proof (cases gc)
      case (Inl e0)
      with run gpool Inr gconn obtain r' w3 t' where
        f: "finalize d (length opers = 1) False [] None (Some e0) w2 = (r', w3, t')"
        and tr: "tr = t1 @ [EvGetConnection pool' (Inl e0)] @ t'"
        by (auto simp: runFinale_def getConnection_def Let_def split: prod.splits)
      from finalize_none[OF f] tr t1n acq show ?thesis by auto
    next
      case c': (Inr c')
      let ?P = "t1 @ [EvGetConnection pool' (Inr c')]"
      have rest: "tr \<noteq> [] \<and> last tr = EvRelease c"
        if tr: "tr = ?P @ t" and on: "list_all (evOn c') t" and l: "t \<noteq> []" "last t = EvRelease c'"
        for t
      proof -
        from acq tr t1n evOn_props[OF on] have "c = c'" by auto
        with tr l show ?thesis by simp
      qed
      show ?thesis
      proof (cases "setCommitOp bt")
        case (Inl e)
        with run gpool Inr gconn c' show ?thesis
          by (auto simp: runFinale_def getConnection_def Let_def)
      next
        case sc: (Inr sc)
        obtain out w3 t3 where ex: "doExecute d c' sc [] w2 = (out, w3, t3)"
          by (metis prod_cases3)
        note on3 = stmtShape_on[OF doExecute_shape[OF ex]]
        show ?thesis
        proof (cases out)
          case (Uncaught e)
          with run gpool Inr gconn c' sc ex show ?thesis
            by (auto simp: runFinale_def getConnection_def Let_def)
        next
          case (Err e1)
          with run gpool Inr gconn c' sc ex obtain r' w4 t' where
            f: "finalize d (length opers = 1) False [] (Some c') (Some e1) w3 = (r', w4, t')"
            and tr: "tr = ?P @ t3 @ t'"
            by (auto simp: runFinale_def getConnection_def Let_def split: prod.splits)
          from finalize_conn[OF f] have t': "t' = [EvRelease c']" by auto
          show ?thesis using on3 t' by (intro rest[OF tr]) auto
        next
          case (Ok v)
          with run gpool Inr gconn c' sc ex obtain w4 t' where
            ro: "runOps b d (length opers = 1) bt opers c' w3 = (Delivered err rv, w4, t')"
            and tr: "tr = ?P @ t3 @ t'"
            by (auto simp: runFinale_def getConnection_def Let_def split: prod.splits)
          from runOps_release[OF ro] on3 show ?thesis by (intro rest[OF tr]) auto
        qed
      qed
    qed
  qed
qed

lemma failed_unique:
  assumes "\<forall>ev \<in> set A. \<not> evFailed ev" and "\<forall>ev \<in> set B. \<not> evFailed ev"
    and "evFailed f" and "pre @ f # post = A @ f' # B"
  shows "pre = A \<and> f = f' \<and> post = B"
  using assms
proof (induction pre arbitrary: A)
  case Nil
  then show ?case by (cases A) auto
next
  case (Cons y pre)
  show ?case
  proof (cases A)
    case Nil
    with Cons.prems have "f \<in> set B" by auto
    with Cons.prems(2,3) show ?thesis by blast
  next
    case (Cons x A')
    with Cons.prems Cons.IH[of A'] show ?thesis by auto
  qed
qed

lemma demo_fail_run:
  "finale demoBuiltins demoDriver demoPf demoStageFail Fn JUndefined (0::nat) =
     (Delivered (Some (DriverError ''syntax error'')) (JArr [JNum (Fin 4)]),
      \<lparr> pools = [(''{}'', 0)], closing = False \<rparr>,
      demoStageFail\<lparr> finaleComplete := True \<rparr>, 6,
      demoFailPre @
      [EvExecute 7 ''this is garbage'' [] (Inl (DriverError ''syntax error'')),
       EvRollback 7 (Some (DriverError ''rollback failed'')), EvRelease 7])"
  by code_simp

text \<open>
  What holds on the paths that reach \<^verbatim>\<open>finalize\<close>. If a statement fails in a call of
  \<^verbatim>\<open>finale\<close>, with error \<open>e\<close> on connection \<open>c\<close>, then no statement is executed after
  it; the callback is called with \<open>e\<close>; and what follows the failed statement is, when
  the transaction had begun, the rollback and then the release of \<open>c\<close>, whatever the
  rollback answers, and otherwise the release of \<open>c\<close> alone. And when the call ends with
  the callback called, a connection that was acquired is released, last of all.
\<close>

lemma failure_stops_and_cleans_up:
  assumes run: "finale b d pf st cb autocommit w = (r, pf', st', w', tr)"
  shows "(\<forall>pre c s a e post. tr = pre @ EvExecute c s a (Inl e) # post \<longrightarrow>
            (\<forall>ev \<in> set post. \<not> isExecute ev)
            \<and> (\<exists>rv. r = Delivered (Some e) rv)
            \<and> (EvBegin c None \<in> set pre \<longrightarrow> (\<exists>rb. post = [EvRollback c rb, EvRelease c]))
            \<and> (EvBegin c None \<notin> set pre \<longrightarrow> post = [EvRelease c]))
       \<and> (\<forall>err rv pool c. r = Delivered err rv \<and> EvGetConnection pool (Inr c) \<in> set tr \<longrightarrow>
            last tr = EvRelease c)"
proof -
  have "tr = [] \<or> (\<exists>pf2 w2. runFinale b d pf (stCfg st) (\<not> truthy autocommit) (stOps st) w
                            = (r, pf2, w2, tr))"
    using run by (cases cb) (auto simp: finale_def doFinale_def split: if_splits prod.splits)
  then consider (guard) "tr = []"
    | (run) pf2 w2 where "runFinale b d pf (stCfg st) (\<not> truthy autocommit) (stOps st) w
                            = (r, pf2, w2, tr)"
    by blast
  then show ?thesis
  proof cases
    case guard
    then show ?thesis by simp
  next
    case run
    have 1: "(\<forall>ev \<in> set post. \<not> isExecute ev)
            \<and> (\<exists>rv. r = Delivered (Some e) rv)
            \<and> (EvBegin c None \<in> set pre \<longrightarrow> (\<exists>rb. post = [EvRollback c rb, EvRelease c]))
            \<and> (EvBegin c None \<notin> set pre \<longrightarrow> post = [EvRelease c])"
      if split: "tr = pre @ EvExecute c s a (Inl e) # post" for pre c s a e post
    proof -
      from runFinale_failShape[OF run] split
      obtain A c' s' a' e' rv B where
        tr: "tr = A @ EvExecute c' s' a' (Inl e') # B"
        and A: "\<forall>ev \<in> set A. \<not> evFailed ev" and r: "r = Delivered (Some e') rv"
        and B: "(EvBegin c' None \<in> set A \<and> (\<exists>rb. B = [EvRollback c' rb, EvRelease c']))
               \<or> (EvBegin c' None \<notin> set A \<and> B = [EvRelease c'])"
        unfolding failShape_def by auto
      from B have Bnf: "\<forall>ev \<in> set B. \<not> evFailed ev" by auto
      have "pre @ EvExecute c s a (Inl e) # post = A @ EvExecute c' s' a' (Inl e') # B"
        using split tr by simp
      from failed_unique[OF A Bnf _ this]
      have eq: "pre = A" "c = c'" "e = e'" "post = B" by auto
      from B r show ?thesis unfolding eq by auto
    qed
    have 2: "last tr = EvRelease c"
      if "r = Delivered err rv" and "EvGetConnection pool (Inr c) \<in> set tr" for err rv pool c
      using runFinale_release[OF run[unfolded that(1)] that(2)] by simp
    from 1 2 show ?thesis by blast
  qed
qed


lemma failure_stops_and_cleans_up_demo:
  "fst (finale demoBuiltins demoDriver demoPf demoStageFail Fn JUndefined (0::nat)) =
     Delivered (Some (DriverError ''syntax error'')) (JArr [JNum (Fin 4)])
   \<and> EvBegin 7 None \<in> set demoFailPre
   \<and> EvGetConnection 0 (Inr 7) \<in> set demoFailPre
   \<and> (\<exists>rb. [EvRollback 7 (Some (DriverError ''rollback failed'')), EvRelease 7] =
             [EvRollback 7 rb, EvRelease 7])
   \<and> last (demoFailPre @
         [EvExecute 7 ''this is garbage'' [] (Inl (DriverError ''syntax error'')),
          EvRollback 7 (Some (DriverError ''rollback failed'')), EvRelease 7]) = EvRelease 7"
proof -
  have bg: "EvBegin 7 None \<in> set demoFailPre" by (simp add: demoFailPre_def)
  have gc: "EvGetConnection 0 (Inr 7) \<in> set demoFailPre" by (simp add: demoFailPre_def)
  from failure_stops_and_cleans_up[OF demo_fail_run, THEN conjunct1, rule_format,
      of demoFailPre 7 "''this is garbage''" "[]" "DriverError ''syntax error''"
        "[EvRollback 7 (Some (DriverError ''rollback failed'')), EvRelease 7]"]
  have rb: "\<exists>rb. [EvRollback 7 (Some (DriverError ''rollback failed'')), EvRelease 7] =
             [EvRollback 7 rb, EvRelease 7]"
    using bg by simp
  from failure_stops_and_cleans_up[OF demo_fail_run, THEN conjunct2, rule_format,
      of "Some (DriverError ''syntax error'')" "JArr [JNum (Fin 4)]" 0 7]
  have rel: "last (demoFailPre @
         [EvExecute 7 ''this is garbage'' [] (Inl (DriverError ''syntax error'')),
          EvRollback 7 (Some (DriverError ''rollback failed'')), EvRelease 7]) = EvRelease 7"
    using gc by simp
  from bg gc rb rel demo_fail_run show ?thesis by simp
qed

text \<open>
  Claim C2 does not hold of the code: not every path reaches \<^verbatim>\<open>finalize\<close>. The
  \<^verbatim>\<open>try\<close> blocks of \<^verbatim>\<open>doQuery\<close>, \<^verbatim>\<open>doExecute\<close> and \<^verbatim>\<open>fillInResults\<close> end
  before the driver calls back, so an exception thrown in the callback of
  \<^verbatim>\<open>conn.execute\<close> is caught by nobody. A \<^verbatim>\<open>query\<close> of a statement for which the
  driver returns a result header and no rows makes \<^verbatim>\<open>formatResult\<close> throw there.
  On the Stage below the connection has been acquired and the transaction begun; the
  statement is the last call made: no rollback, no release, and the callback is never
  called.
\<close>

theorem query_without_rows_leaks_connection:
  "query (newStage demoCfg) (JStr ''insert into test(col1) values (?)'') (JArr [JNum (Fin 1)])
     = Inr demoStageLeak
   \<and> finale demoBuiltins demoDriver demoPf demoStageLeak Fn JUndefined (0::nat) =
       (Crashed (TypeError ''resultSet.forEach is not a function''),
        \<lparr> pools = [(''{}'', 0)], closing = False \<rparr>,
        demoStageLeak\<lparr> finaleComplete := True \<rparr>, 2,
        [EvCreatePool demoCfg (Inr 0), EvGetConnection 0 (Inr 7),
         EvExecute 7 ''SET autocommit=0'' [] (Inr (RHeader 0)), EvBegin 7 None,
         EvExecute 7 ''insert into test(col1) values (?)'' [JNum (Fin 1)] (Inr (RHeader 1))])
   \<and> EvRelease 7 \<notin> set (snd (snd (snd (snd
         (finale demoBuiltins demoDriver demoPf demoStageLeak Fn JUndefined (0::nat))))))
   \<and> finale demoBuiltins demoDriver demoPf demoStageLeak Fn (JBool True) (0::nat) =
       (Crashed (TypeError ''resultSet.forEach is not a function''),
        \<lparr> pools = [(''{}'', 0)], closing = False \<rparr>,
        demoStageLeak\<lparr> finaleComplete := True \<rparr>, 2,
        [EvCreatePool demoCfg (Inr 0), EvGetConnection 0 (Inr 7),
         EvExecute 7 ''SET autocommit=1'' [] (Inr (RHeader 0)),
         EvExecute 7 ''insert into test(col1) values (?)'' [JNum (Fin 1)] (Inr (RHeader 1))])"
  by code_simp

end
